theory Spec2Isabelle
  imports Complex_Main
begin

section \<open>Evidence fusion engine (chronosrep/modules/irv\_pe.py)\<close>

text \<open>
  Python floats are modelled as \<^typ>\<open>real\<close>: the development is about the exact
  arithmetic the code approximates, and says nothing about rounding.
  The frame of discernment is the fixed three-label set; a hypothesis is a set of
  labels (a Python \<^verbatim>\<open>frozenset\<close>), and a basic belief assignment is a Python dict
  from hypotheses to masses, kept as an association list in insertion order.
\<close>

datatype label = Trusted | Untrusted | Unknown

type_synonym hyp = "label set"
type_synonym bba = "(hyp \<times> real) list"

datatype error = ZeroDivisionError | ValueError | IndexError | KeyError

definition FRAME :: hyp where
  "FRAME = {Trusted, Untrusted, Unknown}"

definition S_TR :: hyp where
  "S_TR = {Trusted}"

definition S_UN :: hyp where
  "S_UN = {Untrusted}"

definition S_UK :: hyp where
  "S_UK = {Unknown}"

text \<open>
  \<^verbatim>\<open>_SUBSETS = _powerset(_FRAME)\<close>: the seven non-empty subsets, by increasing size.
  The order inside one size depends on the iteration order of the frozenset; one
  order is fixed here (no result below depends on it).
\<close>

definition SUBSETS :: "hyp list" where
  "SUBSETS = [{Trusted}, {Untrusted}, {Unknown},
              {Trusted, Untrusted}, {Trusted, Unknown}, {Untrusted, Unknown},
              {Trusted, Untrusted, Unknown}]"

text \<open>\<^verbatim>\<open>d.get(k, default)\<close> on a dict kept as an association list.\<close>

definition dict_get :: "('k \<times> 'v) list \<Rightarrow> 'k \<Rightarrow> 'v \<Rightarrow> 'v" where
  "dict_get d k dflt = (case map_of d k of None \<Rightarrow> dflt | Some v \<Rightarrow> v)"

text \<open>\<^verbatim>\<open>sum(d.values())\<close>.\<close>

definition total_mass :: "bba \<Rightarrow> real" where
  "total_mass b = sum_list (map snd b)"

definition belief_entropy :: "bba \<Rightarrow> real" where
  "belief_entropy b =
     foldl (\<lambda>h (A, m).
              if m \<le> 0 then h
              else let denom = (2::int) ^ card A - 1
                   in if denom \<le> 0 then h else h - m * log 2 (m / real_of_int denom))
           0 b"

definition conflict_coeff :: "bba \<Rightarrow> bba \<Rightarrow> real" where
  "conflict_coeff m1 m2 =
     min (sum_list [dict_get m1 A 0 * dict_get m2 B 0. A \<leftarrow> SUBSETS, B \<leftarrow> SUBSETS, A \<inter> B = {}]) 1"

definition combine_mass :: "bba \<Rightarrow> bba \<Rightarrow> hyp \<Rightarrow> real" where
  "combine_mass m1 m2 A =
     sum_list [dict_get m1 B 0 * dict_get m2 C 0. B \<leftarrow> SUBSETS, C \<leftarrow> SUBSETS, B \<inter> C = A]"

definition chronosrep_combine :: "bba \<Rightarrow> bba \<Rightarrow> bba" where
  "chronosrep_combine m1 m2 =
     (let K = conflict_coeff m1 m2 in
      if K \<ge> 1 then [(FRAME, 1)]
      else let norm = 1 - K in
        concat (map (\<lambda>A. let mass = combine_mass m1 m2 A
                          in if mass > 0 then [(A, mass / norm)] else [])
                    SUBSETS))"

definition downweight_bba :: "bba \<Rightarrow> real \<Rightarrow> bba" where
  "downweight_bba b w =
     (let vacuous = 1 - w in
      map (\<lambda>(A, m). (A, m * w + (if A = FRAME then vacuous else 0))) b)"

text \<open>\<^verbatim>\<open>_pignistic_transform\<close>: the returned dict has exactly the three labels as keys.\<close>

definition pignistic_transform :: "bba \<Rightarrow> label \<Rightarrow> real" where
  "pignistic_transform b e =
     sum_list [m / real (card A). (A, m) \<leftarrow> b, card A \<noteq> 0, e \<in> A]"

definition belief :: "bba \<Rightarrow> hyp \<Rightarrow> real" where
  "belief b h = sum_list [m. (A, m) \<leftarrow> b, A \<noteq> {} \<and> A \<subseteq> h]"

definition plausibility :: "bba \<Rightarrow> hyp \<Rightarrow> real" where
  "plausibility b h = sum_list [m. (A, m) \<leftarrow> b, A \<inter> h \<noteq> {}]"

datatype attr_value = AStr string | AInt int | AFloat real

record vc_record =
  vc_id :: string
  vc_type :: string
  issuer_tier :: string
  issuer_trust :: real
  subject_id :: int
  revoked :: bool
  attributes :: "(string \<times> attr_value) list"
  bba :: bba
  issuance_ts :: int
  chain_depth :: int

definition VC_TYPE_WEIGHT :: "(string \<times> real) list" where
  "VC_TYPE_WEIGHT = [(''KYC'', 1), (''DID_DOC'', 85/100), (''BEHAVIORAL'', 9/10),
                     (''DELEGATED'', 7/10), (''GOVERNANCE'', 75/100)]"

definition TIER_DISCOUNT :: "(string \<times> real) list" where
  "TIER_DISCOUNT = [(''ROOT_CA'', 1), (''INTERMEDIATE_CA'', 9/10), (''LEAF_ISSUER'', 75/100)]"

definition CHAIN_DEPTH_PENALTY :: real where
  "CHAIN_DEPTH_PENALTY = 5/100"

definition effective_weight :: "vc_record \<Rightarrow> real" where
  "effective_weight vc =
     (let type_w = dict_get VC_TYPE_WEIGHT (vc_type vc) (7/10);
          tier_d = dict_get TIER_DISCOUNT (issuer_tier vc) (7/10);
          depth_p = max 0 (1 - real_of_int (chain_depth vc) * CHAIN_DEPTH_PENALTY)
      in issuer_trust vc * type_w * tier_d * depth_p)"

text \<open>
  The body of the \<^verbatim>\<open>for vc in active\<close> loop of \<^verbatim>\<open>IRV_PE.process\<close>: the BBA
  appended for one credential. \<^verbatim>\<open>self.eta / h\<close> raises when \<open>h\<close> is zero.
\<close>

definition process_vc :: "real \<Rightarrow> real \<Rightarrow> vc_record \<Rightarrow> error + bba" where
  "process_vc eta revocation_penalty vc =
     (let b = bba vc;
          h = belief_entropy b;
          w = effective_weight vc;
          w = (if revoked vc then w * (1 - revocation_penalty) else w)
      in if h > eta \<and> h = 0 then Inl ZeroDivisionError
         else let w = (if h > eta then w * (eta / h) else w);
                  w = max (1/100) (min w 1);
                  b = (if w < 1 then downweight_bba b w else b)
              in Inr b)"

fun process_loop :: "real \<Rightarrow> real \<Rightarrow> vc_record list \<Rightarrow> error + bba list" where
  "process_loop eta pen [] = Inr []"
| "process_loop eta pen (vc # vcs) =
     (case process_vc eta pen vc of
        Inl e \<Rightarrow> Inl e
      | Inr b \<Rightarrow> (case process_loop eta pen vcs of
                    Inl e \<Rightarrow> Inl e
                  | Inr bs \<Rightarrow> Inr (b # bs)))"

definition clip :: "real \<Rightarrow> real \<Rightarrow> real \<Rightarrow> real" where
  "clip v lo hi = min (max v lo) hi"

text \<open>The working set of \<^verbatim>\<open>IRV_PE.process\<close>: its local \<^verbatim>\<open>active\<close>.\<close>

definition active_credentials :: "vc_record list \<Rightarrow> vc_record list" where
  "active_credentials credentials =
     (let active = filter (\<lambda>vc. \<not> revoked vc) credentials
      in if active = [] then credentials else active)"

text \<open>
  \<^verbatim>\<open>IRV_PE.process\<close> from the loop over the working set on: the BBAs of the working
  set, their left-to-right fusion and the five clipped components.
\<close>

definition process_active :: "real \<Rightarrow> real \<Rightarrow> vc_record list \<Rightarrow> error + real list" where
  "process_active eta revocation_penalty active =
     (case process_loop eta revocation_penalty active of
        Inl e \<Rightarrow> Inl e
      | Inr bbas \<Rightarrow>
          (case bbas of
             [] \<Rightarrow> Inr [0, 0, 0, 0, 0]
           | first # rest \<Rightarrow>
               let fused = foldl chronosrep_combine first rest;
                   betp = pignistic_transform fused;
                   bel_tr = belief fused S_TR;
                   bel_un = belief fused S_UN;
                   bel_uk = belief fused S_UK;
                   pl_tr = plausibility fused S_TR;
                   betp_tr = betp Trusted
               in Inr (map (\<lambda>v. clip v 0 1) [bel_tr, bel_un, bel_uk, pl_tr, betp_tr])))"

text \<open>\<^verbatim>\<open>IRV_PE.process\<close> for an engine built with \<open>eta\<close> and \<open>revocation_penalty\<close>.\<close>

definition process :: "real \<Rightarrow> real \<Rightarrow> int \<Rightarrow> vc_record list \<Rightarrow> error + real list" where
  "process eta revocation_penalty agent_id credentials =
     process_active eta revocation_penalty (active_credentials credentials)"

subsection \<open>Specification-side notions for the fusion rule\<close>

text \<open>
  The sum of \<open>m1(A) * m2(B)\<close> over the pairs of non-empty hypotheses with
  \<open>A \<inter> B = C\<close>, written as the fusion rule states it (a sum over a set of pairs),
  to be compared with the nested loops of the code.
\<close>

definition pair_sum :: "bba \<Rightarrow> bba \<Rightarrow> hyp \<Rightarrow> real" where
  "pair_sum m1 m2 C =
     (\<Sum>(A, B) \<in> {(A, B). A \<noteq> {} \<and> B \<noteq> {} \<and> A \<inter> B = C}. dict_get m1 A 0 * dict_get m2 B 0)"

text \<open>
  A BBA as the data model has it: a dict (distinct keys) whose hypotheses are non-empty,
  whose masses are non-negative and sum to 1.
\<close>

definition normalized_bba :: "bba \<Rightarrow> bool" where
  "normalized_bba b \<longleftrightarrow>
     distinct (map fst b) \<and> (\<forall>(A, m) \<in> set b. A \<noteq> {} \<and> 0 \<le> m) \<and> total_mass b = 1"


text \<open>The BBA of the worked fusion example, and two BBAs in total contradiction.\<close>

definition example_bba :: bba where
  "example_bba = [({Trusted}, 6/10), ({Unknown}, 1/10), (FRAME, 3/10)]"

definition sure_trusted :: bba where
  "sure_trusted = [({Trusted}, 1)]"

definition sure_untrusted :: bba where
  "sure_untrusted = [({Untrusted}, 1)]"

text \<open>
  Two credentials that differ in the revoked flag only: a KYC credential of a root
  issuer with trust 0.9 and all its mass on \<open>{trusted}\<close>.
\<close>

definition cred_ok :: vc_record where
  "cred_ok = \<lparr>vc_id = ''vc-0001-0-KYC'', vc_type = ''KYC'', issuer_tier = ''ROOT_CA'',
              issuer_trust = 9/10, subject_id = 1, revoked = False, attributes = [],
              bba = sure_trusted, issuance_ts = 0, chain_depth = 0\<rparr>"

definition cred_revoked :: vc_record where
  "cred_revoked = cred_ok\<lparr>revoked := True\<rparr>"

section \<open>Behavioral surveillance monitor (chronosrep/modules/bsm.py)\<close>

definition CUSUM_H :: real where
  "CUSUM_H = 4"

definition CUSUM_K :: real where
  "CUSUM_K = 1/2"

definition ZSCORE_WIN :: nat where
  "ZSCORE_WIN = 30"

definition ENTROPY_EPS :: real where
  "ENTROPY_EPS = 1 / 10 ^ 9"

text \<open>
  \<^verbatim>\<open>_StreamState\<close>. The field \<^verbatim>\<open>t\<close> is named \<open>steps\<close> here; the window is a
  \<^verbatim>\<open>deque(maxlen=30)\<close>, oldest element first.
\<close>

record stream_state =
  window :: "real list"
  cusum_pos :: real
  cusum_neg :: real
  alarm_count :: int
  last_entropy :: real
  steps :: int

definition new_stream_state :: stream_state where
  "new_stream_state = \<lparr>window = [], cusum_pos = 0, cusum_neg = 0, alarm_count = 0,
                        last_entropy = 0, steps = 0\<rparr>"

text \<open>\<^verbatim>\<open>deque.append\<close> on a deque with \<^verbatim>\<open>maxlen\<close>: the oldest elements fall out.\<close>

definition deque_append :: "nat \<Rightarrow> 'a list \<Rightarrow> 'a \<Rightarrow> 'a list" where
  "deque_append maxlen xs v = (let ys = xs @ [v] in drop (length ys - maxlen) ys)"

text \<open>\<^verbatim>\<open>arr.mean()\<close> and \<^verbatim>\<open>arr.std()\<close> of numpy (population standard deviation).\<close>

definition np_mean :: "real list \<Rightarrow> real" where
  "np_mean xs = sum_list xs / real (length xs)"

definition np_std :: "real list \<Rightarrow> real" where
  "np_std xs = sqrt (np_mean (map (\<lambda>v. (v - np_mean xs) ^ 2) xs))"

definition shannon_entropy :: "real list \<Rightarrow> real" where
  "shannon_entropy probs = - sum_list [p * log 2 p. p \<leftarrow> probs, p > ENTROPY_EPS]"

definition outcome_distribution :: "real list \<Rightarrow> real list" where
  "outcome_distribution w =
     (if length w = 0 then [1/2, 1/2]
      else let p1 = np_mean w; p0 = 1 - p1 in [p0, p1])"

definition zscore_normalize :: "real \<Rightarrow> real list \<Rightarrow> real" where
  "zscore_normalize v w =
     (if length w < 2 then 0
      else let mu = np_mean w; sigma = np_std w
           in if sigma < ENTROPY_EPS then 0 else (v - mu) / sigma)"

definition cusum_update :: "real \<Rightarrow> real \<Rightarrow> real \<Rightarrow> real \<Rightarrow> real \<times> real \<times> bool" where
  "cusum_update z s_pos s_neg k =
     (let s_pos = max 0 (s_pos + z - k);
          s_neg = max 0 (s_neg - z - k);
          alarm = (s_pos > CUSUM_H \<or> s_neg > CUSUM_H)
      in if alarm then (0, 0, alarm) else (s_pos, s_neg, alarm))"

text \<open>
  A \<^verbatim>\<open>BSM\<close> instance: the two constructor arguments, stored as \<^verbatim>\<open>_h\<close> and \<^verbatim>\<open>_k\<close>, and
  the dict of per-agent states.
\<close>

record bsm =
  bsm_h :: real
  bsm_k :: real
  bsm_states :: "int \<rightharpoonup> stream_state"

definition bsm_init :: "real \<Rightarrow> real \<Rightarrow> bsm" where
  "bsm_init cusum_h cusum_k = \<lparr>bsm_h = cusum_h, bsm_k = cusum_k, bsm_states = Map.empty\<rparr>"

definition bsm_ensure :: "bsm \<Rightarrow> int \<Rightarrow> bsm \<times> stream_state" where
  "bsm_ensure b agent_id =
     (case bsm_states b agent_id of
        None \<Rightarrow> (b\<lparr>bsm_states := (bsm_states b)(agent_id \<mapsto> new_stream_state)\<rparr>, new_stream_state)
      | Some s \<Rightarrow> (b, s))"

text \<open>
  One pass of the \<^verbatim>\<open>for outcome in behavior_stream\<close> loop of \<^verbatim>\<open>BSM.monitor\<close>, on the
  agent's state and the local list \<^verbatim>\<open>alarms\<close>; \<open>k\<close> is \<^verbatim>\<open>self._k\<close>.
\<close>

definition monitor_step :: "real \<Rightarrow> stream_state \<times> int list \<Rightarrow> int \<Rightarrow> stream_state \<times> int list" where
  "monitor_step k sa outcome =
     (let s = fst sa; alarms = snd sa;
          s = s\<lparr>window := deque_append ZSCORE_WIN (window s) (real_of_int outcome)\<rparr>;
          z = zscore_normalize (real_of_int outcome) (window s);
          (p, n, alarm) = cusum_update z (cusum_pos s) (cusum_neg s) k;
          s = s\<lparr>cusum_pos := p, cusum_neg := n\<rparr>;
          (s, alarms) = (if alarm then (s\<lparr>alarm_count := alarm_count s + 1\<rparr>, alarms @ [steps s])
                         else (s, alarms))
      in (s\<lparr>steps := steps s + 1\<rparr>, alarms))"

text \<open>The dict returned by \<^verbatim>\<open>BSM.monitor\<close>.\<close>

record diagnostics =
  d_agent_id :: int
  d_mean_outcome :: real
  d_entropy :: real
  d_anomaly_score :: real
  d_alarm_steps :: "int list"
  d_cusum_pos :: real
  d_cusum_neg :: real
  d_t :: int

definition monitor :: "bsm \<Rightarrow> int \<Rightarrow> int list \<Rightarrow> bsm \<times> diagnostics" where
  "monitor b agent_id behavior_stream =
     (let (b, s) = bsm_ensure b agent_id;
          (s, alarms) = foldl (monitor_step (bsm_k b)) (s, []) behavior_stream;
          dist = outcome_distribution (window s);
          h = shannon_entropy dist;
          s = s\<lparr>last_entropy := h\<rparr>;
          mean_outcome = (if length (window s) > 0 then np_mean (window s) else 1/2);
          anomaly = real_of_int (alarm_count s) / real_of_int (max (steps s) 1)
      in (b\<lparr>bsm_states := (bsm_states b)(agent_id \<mapsto> s)\<rparr>,
          \<lparr>d_agent_id = agent_id, d_mean_outcome = mean_outcome, d_entropy = h,
           d_anomaly_score = anomaly, d_alarm_steps = alarms,
           d_cusum_pos = cusum_pos s, d_cusum_neg = cusum_neg s, d_t = steps s\<rparr>))"

definition anomaly_score :: "bsm \<Rightarrow> int \<Rightarrow> real" where
  "anomaly_score b agent_id =
     (case bsm_states b agent_id of
        None \<Rightarrow> 0
      | Some s \<Rightarrow> if steps s = 0 then 0
                  else real_of_int (alarm_count s) / real_of_int (steps s))"

text \<open>A sequence of \<^verbatim>\<open>monitor\<close> calls on one instance, given as (agent id, stream) pairs.\<close>

definition monitor_calls :: "bsm \<Rightarrow> (int \<times> int list) list \<Rightarrow> bsm" where
  "monitor_calls b calls = foldl (\<lambda>b (a, stream). fst (monitor b a stream)) b calls"


text \<open>The counting invariant of a stream state: at most one alarm per step.\<close>

definition counts_ok :: "stream_state \<Rightarrow> bool" where
  "counts_ok s \<longleftrightarrow> 0 \<le> alarm_count s \<and> alarm_count s \<le> steps s"


section \<open>Interaction and community engine (chronosrep/modules/ite.py)\<close>

definition SUSPECT_DIN :: real where
  "SUSPECT_DIN = 6/10"

definition SUSPECT_EXTER :: real where
  "SUSPECT_EXTER = 2/10"

definition BETA :: real where
  "BETA = 1/2"

definition GAMMA :: real where
  "GAMMA = 1/2"

record comm_stats =
  members :: "int set"
  din :: real
  ext_ratio :: real

definition fast_jaccard :: "int set \<Rightarrow> int set \<Rightarrow> real" where
  "fast_jaccard nbrs_u nbrs_v =
     (let inter = card (nbrs_u \<inter> nbrs_v);
          union = card (nbrs_u \<union> nbrs_v)
      in if union > 0 then real inter / real union else 0)"

definition is_suspect :: "comm_stats \<Rightarrow> bool" where
  "is_suspect stats \<longleftrightarrow> din stats \<ge> SUSPECT_DIN \<and> ext_ratio stats \<le> SUSPECT_EXTER"

definition structural_penalty :: "real \<Rightarrow> real \<Rightarrow> real" where
  "structural_penalty sim d =
     (let raw = BETA * sim + GAMMA * d in max 0 (1 - raw))"

text \<open>
  The operations of Python's \<^verbatim>\<open>random.Random\<close> that this engine calls, on an rng state of
  type \<open>'r\<close>. The generator is library code: it is a parameter of the model.
\<close>

record 'r py_random =
  rnd_sample :: "'r \<Rightarrow> int list \<Rightarrow> nat \<Rightarrow> int list \<times> 'r"
  rnd_randint :: "'r \<Rightarrow> int \<Rightarrow> int \<Rightarrow> int \<times> 'r"

text \<open>
  An \<^verbatim>\<open>ITE\<close> instance. The directed graph is its node list and its edge dict, from
  \<open>(u, v)\<close> to the attributes \<open>(weight, last)\<close>; \<^verbatim>\<open>_nbrs\<close> is a \<^verbatim>\<open>defaultdict(set)\<close>, a
  total function with default \<open>{}\<close>; \<^verbatim>\<open>_partition\<close> and \<^verbatim>\<open>_comm_stats\<close> are dicts.
\<close>

record 'r ite =
  ite_beta :: real
  ite_gamma :: real
  recompute_interval :: int
  k_interactions :: int
  ite_rng :: 'r
  graph_nodes :: "int list"
  graph_edges :: "((int \<times> int) \<times> (int \<times> int)) list"
  nbrs :: "int \<Rightarrow> int set"
  ite_partition :: "(int \<times> int) list"
  ite_comm_stats :: "(int \<times> comm_stats) list"
  ite_step :: int

definition ite_init :: "real \<Rightarrow> real \<Rightarrow> int \<Rightarrow> int \<Rightarrow> 'r \<Rightarrow> 'r ite" where
  "ite_init beta gamma interval k rng =
     \<lparr>ite_beta = beta, ite_gamma = gamma, recompute_interval = interval, k_interactions = k,
      ite_rng = rng, graph_nodes = [], graph_edges = [], nbrs = (\<lambda>_. {}),
      ite_partition = [], ite_comm_stats = [], ite_step = 0\<rparr>"

definition add_node :: "int \<Rightarrow> int list \<Rightarrow> int list" where
  "add_node n ns = (if n \<in> set ns then ns else ns @ [n])"

definition ite_ensure :: "'r ite \<Rightarrow> int list \<Rightarrow> 'r ite" where
  "ite_ensure st ids = st\<lparr>graph_nodes := foldl (\<lambda>ns aid. add_node aid ns) (graph_nodes st) ids\<rparr>"

text \<open>\<^verbatim>\<open>d[k] = v\<close> on a dict kept as an association list: the position of a key stays.\<close>

fun dict_set :: "('k \<times> 'v) list \<Rightarrow> 'k \<Rightarrow> 'v \<Rightarrow> ('k \<times> 'v) list" where
  "dict_set [] k v = [(k, v)]"
| "dict_set ((k', v') # d) k v = (if k' = k then (k, v) # d else (k', v') # dict_set d k v)"

definition add_edge :: "'r ite \<Rightarrow> int \<Rightarrow> int \<Rightarrow> int \<Rightarrow> 'r ite" where
  "add_edge st u v outcome =
     (let edges = (case map_of (graph_edges st) (u, v) of
                     Some (weight, _) \<Rightarrow> dict_set (graph_edges st) (u, v) (weight + 1, outcome)
                   | None \<Rightarrow> dict_set (graph_edges st) (u, v) (1, outcome));
          nodes = add_node v (add_node u (graph_nodes st));
          nb = nbrs st;
          nb = nb(u := insert v (nb u));
          nb = nb(v := insert u (nb v))
      in st\<lparr>graph_nodes := nodes, graph_edges := edges, nbrs := nb\<rparr>)"

text \<open>The keys of a list in order of first appearance (the key order of a dict built by a loop).\<close>

definition first_seen :: "'a list \<Rightarrow> 'a list" where
  "first_seen xs = rev (remdups (rev xs))"

text \<open>
  \<^verbatim>\<open>_recompute\<close>. The community detection \<^verbatim>\<open>community_louvain.best_partition\<close> is library
  code: \<open>best_partition\<close> stands for it, from the nodes and edges of the undirected graph
  to the dict from node to community.
\<close>

definition recompute ::
  "(int list \<Rightarrow> (int \<times> int) list \<Rightarrow> (int \<times> int) list) \<Rightarrow> 'r ite \<Rightarrow> 'r ite" where
  "recompute best_partition st =
     (let edges = map fst (graph_edges st);
          part = (if length edges = 0 then map (\<lambda>n. (n, n)) (graph_nodes st)
                  else best_partition (graph_nodes st) edges);
          stats = map (\<lambda>cid.
                    let mem = [node. (node, comm) \<leftarrow> part, comm = cid];
                        n = int (length mem);
                        mset = set mem;
                        internal = length [e. e \<leftarrow> edges, fst e \<in> mset \<and> snd e \<in> mset];
                        external = length [e. e \<leftarrow> edges, fst e \<in> mset \<and> snd e \<notin> mset];
                        max_int = n * (n - 1);
                        d = (if max_int > 0 then real internal / real_of_int max_int else 0);
                        total_out = internal + external;
                        er = (if total_out > 0 then real external / real total_out else 1)
                    in (cid, \<lparr>members = mset, din = d, ext_ratio = er\<rparr>))
                  (first_seen (map snd part))
      in st\<lparr>ite_partition := part, ite_comm_stats := stats\<rparr>)"

text \<open>\<^verbatim>\<open>tick\<close>; the modulo raises when the recompute interval is 0.\<close>

definition tick ::
  "(int list \<Rightarrow> (int \<times> int) list \<Rightarrow> (int \<times> int) list) \<Rightarrow> 'r ite \<Rightarrow> error + 'r ite" where
  "tick best_partition st =
     (let st = st\<lparr>ite_step := ite_step st + 1\<rparr> in
      if recompute_interval st = 0 then Inl ZeroDivisionError
      else if ite_step st mod recompute_interval st = 0 then Inr (recompute best_partition st)
      else Inr st)"

text \<open>\<^verbatim>\<open>generate_interactions\<close>; \<^verbatim>\<open>random.sample\<close> raises on a negative sample size.\<close>

fun interact_loop :: "'r py_random \<Rightarrow> 'r ite \<Rightarrow> int \<Rightarrow> int list \<Rightarrow> 'r ite \<times> (int \<times> int) list" where
  "interact_loop ops st agent_id [] = (st, [])"
| "interact_loop ops st agent_id (t # ts) =
     (let (outcome, r) = rnd_randint ops (ite_rng st) 0 1;
          st = add_edge (st\<lparr>ite_rng := r\<rparr>) agent_id t outcome;
          (st, pairs) = interact_loop ops st agent_id ts
      in (st, (t, outcome) # pairs))"

definition generate_interactions ::
  "'r py_random \<Rightarrow> 'r ite \<Rightarrow> int \<Rightarrow> int list \<Rightarrow> error + ('r ite \<times> (int \<times> int) list)" where
  "generate_interactions ops st agent_id all_ids =
     (let st = ite_ensure st (agent_id # all_ids);
          candidates = filter (\<lambda>x. x \<noteq> agent_id) all_ids;
          n = min (k_interactions st) (int (length candidates))
      in if n < 0 then Inl ValueError
         else let (targets, r) = rnd_sample ops (ite_rng st) candidates (nat n)
              in Inr (interact_loop ops (st\<lparr>ite_rng := r\<rparr>) agent_id targets))"

definition force_interaction :: "'r ite \<Rightarrow> int \<Rightarrow> int \<Rightarrow> int \<Rightarrow> 'r ite" where
  "force_interaction st u v outcome = add_edge (ite_ensure st [u, v]) u v outcome"

definition penalized_evidence :: "'r ite \<Rightarrow> int \<Rightarrow> int \<Rightarrow> int \<Rightarrow> real" where
  "penalized_evidence st endorser_id target_id raw_outcome =
     (let e = real_of_int raw_outcome in
      if ite_partition st = [] then e
      else case (map_of (ite_partition st) endorser_id, map_of (ite_partition st) target_id) of
             (Some c_e, Some c_t) \<Rightarrow>
               if c_e \<noteq> c_t then e
               else (case map_of (ite_comm_stats st) c_e of
                       None \<Rightarrow> e
                     | Some stats \<Rightarrow>
                         if \<not> is_suspect stats then e
                         else let nbrs_e = nbrs st endorser_id \<union> {endorser_id};
                                  nbrs_t = nbrs st target_id \<union> {target_id};
                                  sim = fast_jaccard nbrs_e nbrs_t;
                                  w = structural_penalty sim (din stats)
                              in w * e)
           | _ \<Rightarrow> e)"

text \<open>
  The penalty weight as the specification states it, with the coefficients the instance
  was constructed with.
\<close>

definition configured_penalty :: "'r ite \<Rightarrow> real \<Rightarrow> real \<Rightarrow> real" where
  "configured_penalty st sim d = max 0 (1 - (ite_beta st * sim + ite_gamma st * d))"

text \<open>
  A two-node session: an instance built with \<open>beta = gamma = 0\<close>, two forced interactions
  between actors 0 and 1, and ten ticks, the tenth of which recomputes the partition.
  \<open>pair_partition\<close> is the partition of the single-edge graph into one community.
\<close>

definition pair_partition :: "int list \<Rightarrow> (int \<times> int) list \<Rightarrow> (int \<times> int) list" where
  "pair_partition nodes edges = map (\<lambda>n. (n, 0)) nodes"

definition ticks :: "(int list \<Rightarrow> (int \<times> int) list \<Rightarrow> (int \<times> int) list) \<Rightarrow> nat \<Rightarrow> 'r ite \<Rightarrow> error + 'r ite" where
  "ticks best_partition n st =
     ((\<lambda>r. case r of Inl e \<Rightarrow> Inl e | Inr s \<Rightarrow> tick best_partition s) ^^ n) (Inr st)"

definition pair_session :: "unit ite" where
  "pair_session = force_interaction (force_interaction (ite_init 0 0 10 3 ()) 0 1 1) 1 0 1"


text \<open>The state of the two-node session after the tenth tick.\<close>

definition pair_suspect_state :: "unit ite" where
  "pair_suspect_state =
     pair_session\<lparr>ite_partition := [(0, 0), (1, 0)],
                  ite_comm_stats := [(0, \<lparr>members = {0, 1}, din = 1, ext_ratio = 0\<rparr>)],
                  ite_step := 10\<rparr>"


section \<open>Volatility-adjusted dynamics module (chronosrep/modules/vadm.py)\<close>

definition GAMMA_THRESHOLD :: real where
  "GAMMA_THRESHOLD = 3"

definition X_LO :: real where
  "X_LO = 0"

definition X_HI :: real where
  "X_HI = 1"

text \<open>
  \<^verbatim>\<open>_AgentState\<close>; the fields \<^verbatim>\<open>x\<close>, \<^verbatim>\<open>theta\<close>, \<^verbatim>\<open>history\<close> and \<^verbatim>\<open>t\<close> carry the prefix
  \<open>st_\<close>.
\<close>

record agent_state =
  st_x :: real
  st_theta :: real
  st_history :: "real list"
  st_t :: int

text \<open>
  The two operations of numpy's \<^verbatim>\<open>Generator\<close> that the module calls, on an rng state of
  type \<open>'g\<close>: \<^verbatim>\<open>standard_normal()\<close> and \<^verbatim>\<open>normal(loc, scale)\<close>. The generator is library
  code: it is a parameter of the model.
\<close>

record 'g np_random =
  np_standard_normal :: "'g \<Rightarrow> real \<times> 'g"
  np_normal :: "'g \<Rightarrow> real \<Rightarrow> real \<Rightarrow> real \<times> 'g"

definition noise_floor :: "real \<Rightarrow> real \<Rightarrow> real" where
  "noise_floor sigma theta = sigma / max (sqrt (2 * theta)) (1 / 10 ^ 8)"

definition gamma_ratio :: "real \<Rightarrow> real \<Rightarrow> real \<Rightarrow> real" where
  "gamma_ratio epsilon sigma theta =
     (let nf = noise_floor sigma theta in if nf > 0 then \<bar>epsilon\<bar> / nf else 0)"

text \<open>
  The local \<^verbatim>\<open>jump\<close> of \<^verbatim>\<open>_euler_maruyama\<close>, with the rng as it is left: the normal draw
  is made only above the threshold.
\<close>

definition em_jump :: "'g np_random \<Rightarrow> 'g \<Rightarrow> real \<Rightarrow> real \<Rightarrow> real \<Rightarrow> real \<Rightarrow> real \<times> 'g" where
  "em_jump ops rng x mu jump_scale gamma =
     (if gamma > GAMMA_THRESHOLD
      then let direction = (if x > mu then - 1 else 1);
               (n, rng) = np_normal ops rng 0 jump_scale
           in (direction * \<bar>n\<bar>, rng)
      else (0, rng))"

definition euler_maruyama ::
  "'g np_random \<Rightarrow> real \<Rightarrow> real \<Rightarrow> real \<Rightarrow> real \<Rightarrow> real \<Rightarrow> 'g \<Rightarrow> real \<Rightarrow> real \<Rightarrow> real \<times> 'g" where
  "euler_maruyama ops x mu theta sigma dt rng jump_scale gamma =
     (let drift = theta * (mu - x) * dt;
          (z, rng) = np_standard_normal ops rng;
          diffusion = sigma * z * sqrt dt;
          (jump, rng) = em_jump ops rng x mu jump_scale gamma
      in (clip (x + drift + diffusion + jump) X_LO X_HI, rng))"

definition update_theta :: "real \<Rightarrow> real \<Rightarrow> real \<Rightarrow> real \<Rightarrow> real" where
  "update_theta theta epsilon alpha dt =
     (let grad = epsilon - theta * dt in clip (theta + alpha * grad) (1 / 10 ^ 4) 10)"

text \<open>A \<^verbatim>\<open>VADM\<close> instance: the constructor arguments, the rng and the dict of states.\<close>

record 'g vadm =
  v_dt :: real
  v_theta_0 :: real
  v_sigma :: real
  v_jump_scale :: real
  v_alpha :: real
  v_window :: nat
  v_rng :: 'g
  v_states :: "int \<rightharpoonup> agent_state"

definition vadm_init :: "real \<Rightarrow> real \<Rightarrow> real \<Rightarrow> real \<Rightarrow> real \<Rightarrow> nat \<Rightarrow> 'g \<Rightarrow> 'g vadm" where
  "vadm_init dt theta_0 sigma jump_scale alpha w rng =
     \<lparr>v_dt = dt, v_theta_0 = theta_0, v_sigma = sigma, v_jump_scale = jump_scale,
      v_alpha = alpha, v_window = w, v_rng = rng, v_states = Map.empty\<rparr>"

text \<open>\<^verbatim>\<open>self._states.get(agent_id) or self._init(agent_id, mu)\<close>: the state the step works on.\<close>

definition vadm_state :: "'g vadm \<Rightarrow> int \<Rightarrow> real \<Rightarrow> agent_state" where
  "vadm_state v agent_id mu =
     (case v_states v agent_id of
        Some s \<Rightarrow> s
      | None \<Rightarrow> \<lparr>st_x = clip mu X_LO X_HI, st_theta = v_theta_0 v, st_history = [], st_t = 0\<rparr>)"

text \<open>The normalized surprise ratio \<^verbatim>\<open>gamma\<close> that \<^verbatim>\<open>VADM.step\<close> computes, from the state before the call.\<close>

definition step_gamma :: "'g vadm \<Rightarrow> int \<Rightarrow> real \<Rightarrow> real \<Rightarrow> real" where
  "step_gamma v agent_id mu r_static =
     (let s = vadm_state v agent_id mu;
          epsilon = \<bar>r_static - st_x s\<bar>
      in gamma_ratio epsilon (v_sigma v) (st_theta s))"

text \<open>\<^verbatim>\<open>VADM.step\<close>; \<^verbatim>\<open>irv[0]\<close> raises on an empty vector.\<close>

definition vadm_step ::
  "'g np_random \<Rightarrow> 'g vadm \<Rightarrow> int \<Rightarrow> real list \<Rightarrow> real \<Rightarrow> error + ((real \<times> real) \<times> 'g vadm)" where
  "vadm_step ops v agent_id irv r_static =
     (case irv of
        [] \<Rightarrow> Inl IndexError
      | irv0 # _ \<Rightarrow>
          let mu = clip irv0 X_LO X_HI;
              s = vadm_state v agent_id mu;
              epsilon = \<bar>r_static - st_x s\<bar>;
              gamma = gamma_ratio epsilon (v_sigma v) (st_theta s);
              s = s\<lparr>st_theta := update_theta (st_theta s) epsilon (v_alpha v) (v_dt v)\<rparr>;
              (x, rng) = euler_maruyama ops (st_x s) mu (st_theta s) (v_sigma v) (v_dt v)
                           (v_rng v) (v_jump_scale v) gamma;
              s = s\<lparr>st_x := x\<rparr>;
              s = s\<lparr>st_history := deque_append (v_window v) (st_history s) (st_x s)\<rparr>;
              s = s\<lparr>st_t := st_t s + 1\<rparr>;
              sigma_w = (if length (st_history s) > 1 then np_std (st_history s) else 0)
          in Inr ((st_x s, sigma_w), v\<lparr>v_rng := rng, v_states := (v_states v)(agent_id \<mapsto> s)\<rparr>))"

text \<open>
  The jump that the \<^verbatim>\<open>_euler_maruyama\<close> call of \<^verbatim>\<open>VADM.step\<close> adds: \<open>em_jump\<close> on the
  agent's reputation before the call, on the rng after the diffusion draw.
\<close>

definition step_jump :: "'g np_random \<Rightarrow> 'g vadm \<Rightarrow> int \<Rightarrow> real \<Rightarrow> real \<Rightarrow> real" where
  "step_jump ops v agent_id mu r_static =
     fst (em_jump ops (snd (np_standard_normal ops (v_rng v)))
            (st_x (vadm_state v agent_id mu)) mu (v_jump_scale v)
            (step_gamma v agent_id mu r_static))"

text \<open>
  A scripted generator for running the model on given draws: the rng state is the list of
  the values still to be returned (0 when the script is used up); \<^verbatim>\<open>normal(loc, scale)\<close>
  returns \<open>loc + scale * draw\<close>.
\<close>

definition scripted_np :: "real list np_random" where
  "scripted_np =
     \<lparr>np_standard_normal = (\<lambda>r. case r of [] \<Rightarrow> (0, []) | d # ds \<Rightarrow> (d, ds)),
      np_normal = (\<lambda>r loc scale. case r of [] \<Rightarrow> (loc, []) | d # ds \<Rightarrow> (loc + scale * d, ds))\<rparr>"

text \<open>
  A default-configured instance after one call for actor 0 with evidence target 0.8 and
  static score 0.8 (no surprise, diffusion draw 0): the actor's reputation is 0.8.
\<close>

definition settled_vadm :: "real list vadm" where
  "settled_vadm =
     \<lparr>v_dt = 1, v_theta_0 = 3/10, v_sigma = 3/100, v_jump_scale = 35/100, v_alpha = 5/100,
      v_window = 20, v_rng = [0, 1],
      v_states = [0 \<mapsto> \<lparr>st_x = 8/10, st_theta = 57/200, st_history = [8/10], st_t = 1\<rparr>]\<rparr>"


text \<open>A default-configured instance before any call, with three scripted draws.\<close>

definition fresh_vadm :: "real list vadm" where
  "fresh_vadm = vadm_init 1 (3/10) (3/100) (35/100) (5/100) 20 [0, 0, 1]"


section \<open>The agent and the model loop (chronosrep/model.py, chronosrep/scenarios.py)\<close>

text \<open>\<^verbatim>\<open>ChronosAgent\<close>: the fields set by its constructor.\<close>

record chronos_agent =
  unique_id :: int
  irv :: "real list"
  reputation :: real
  volatility :: real
  evidence :: "real list"
  isolated :: bool
  is_attacker :: bool

text \<open>
  The methods of the five module instances that the agent and the model call, and the
  draw \<^verbatim>\<open>random.choice\<close> of the scenarios, as operations on the state \<open>'m\<close> that the
  module instances and the generators make up. Every operation may raise. The agent and
  the loop are modelled for any such operations; \<open>chronos_modules\<close> below are the ones of
  the modules modelled above.
\<close>

record 'm modules =
  m_generate :: "'m \<Rightarrow> int \<Rightarrow> bool \<Rightarrow> error + (vc_record list \<times> 'm)"
  m_process :: "'m \<Rightarrow> int \<Rightarrow> vc_record list \<Rightarrow> error + (real list \<times> 'm)"
  m_generate_interactions :: "'m \<Rightarrow> int \<Rightarrow> int list \<Rightarrow> error + ((int \<times> int) list \<times> 'm)"
  m_penalized_evidence :: "'m \<Rightarrow> int \<Rightarrow> int \<Rightarrow> int \<Rightarrow> error + (real \<times> 'm)"
  m_monitor :: "'m \<Rightarrow> int \<Rightarrow> int list \<Rightarrow> error + (diagnostics \<times> 'm)"
  m_vadm_step :: "'m \<Rightarrow> int \<Rightarrow> real list \<Rightarrow> real \<Rightarrow> error + ((real \<times> real) \<times> 'm)"
  m_tick :: "'m \<Rightarrow> error + 'm"
  m_force_interaction :: "'m \<Rightarrow> int \<Rightarrow> int \<Rightarrow> int \<Rightarrow> error + 'm"
  m_choice :: "'m \<Rightarrow> int list \<Rightarrow> error + (int \<times> 'm)"

text \<open>
  \<^verbatim>\<open>ChronosRepModel\<close>: the scheduler's agents in insertion order, the module instances,
  and the bookkeeping fields. \<^verbatim>\<open>_attacker_ids\<close> is a set; it is kept as the list of its
  elements in iteration order. The data collector only reads the state and is left out.
\<close>

record 'm world =
  agents :: "chronos_agent list"
  engine :: 'm
  tau :: real
  current_step :: int
  newly_isolated :: "int set"
  isolation_step :: "int \<rightharpoonup> int"
  attacker_ids :: "int list"

definition bind_err :: "error + 'a \<Rightarrow> ('a \<Rightarrow> error + 'b) \<Rightarrow> error + 'b" where
  "bind_err r f = (case r of Inl e \<Rightarrow> Inl e | Inr x \<Rightarrow> f x)"

text \<open>\<^verbatim>\<open>[a.unique_id for a in self.model.schedule.agents if not a.isolated]\<close>.\<close>

definition all_ids :: "'m world \<Rightarrow> int list" where
  "all_ids w = [unique_id a. a \<leftarrow> agents w, \<not> isolated a]"

text \<open>The agent object of a given id; writing back the mutated object.\<close>

definition get_agent :: "'m world \<Rightarrow> int \<Rightarrow> chronos_agent option" where
  "get_agent w uid = find (\<lambda>a. unique_id a = uid) (agents w)"

definition put_agent :: "chronos_agent list \<Rightarrow> chronos_agent \<Rightarrow> chronos_agent list" where
  "put_agent as a = map (\<lambda>b. if unique_id b = unique_id a then a else b) as"

text \<open>The list comprehension that fills \<^verbatim>\<open>self.evidence\<close>.\<close>

fun evidence_loop :: "'m modules \<Rightarrow> 'm \<Rightarrow> int \<Rightarrow> (int \<times> int) list \<Rightarrow> error + (real list \<times> 'm)" where
  "evidence_loop ops eng uid [] = Inr ([], eng)"
| "evidence_loop ops eng uid ((target, outcome) # rest) =
     bind_err (m_penalized_evidence ops eng uid target outcome) (\<lambda>(e, eng).
     bind_err (evidence_loop ops eng uid rest) (\<lambda>(es, eng).
     Inr (e # es, eng)))"

text \<open>
  The end of \<^verbatim>\<open>ChronosAgent.step\<close>: the agent \<open>a\<close> with its new vector, evidence,
  reputation and volatility is written back, and isolated when the reputation is below
  \<^verbatim>\<open>TAU\<close>; \<open>eng\<close> is the state the module calls have left.
\<close>

definition finish_step ::
  "'m world \<Rightarrow> chronos_agent \<Rightarrow> real list \<Rightarrow> real list \<Rightarrow> real \<Rightarrow> real \<Rightarrow> 'm \<Rightarrow> 'm world" where
  "finish_step w a irv' ev rep vol eng =
     (let a = a\<lparr>irv := irv', evidence := ev, reputation := rep, volatility := vol\<rparr> in
      if rep < tau w
      then w\<lparr>agents := put_agent (agents w) (a\<lparr>isolated := True\<rparr>), engine := eng,
              newly_isolated := insert (unique_id a) (newly_isolated w)\<rparr>
      else w\<lparr>agents := put_agent (agents w) a, engine := eng\<rparr>)"

text \<open>\<^verbatim>\<open>ChronosAgent.step\<close>, for the agent with id \<open>uid\<close>.\<close>

definition agent_step :: "'m modules \<Rightarrow> 'm world \<Rightarrow> int \<Rightarrow> error + 'm world" where
  "agent_step ops w uid =
     (case get_agent w uid of
        None \<Rightarrow> Inr w
      | Some a \<Rightarrow>
          if isolated a then Inr w
          else
            let ids = all_ids w in
            bind_err (m_generate ops (engine w) uid (is_attacker a)) (\<lambda>(credentials, eng).
            bind_err (m_process ops eng uid credentials) (\<lambda>(irv', eng).
            bind_err (m_generate_interactions ops eng uid ids) (\<lambda>(interactions, eng).
            let outcomes = map snd interactions in
            bind_err (evidence_loop ops eng uid interactions) (\<lambda>(ev, eng).
            bind_err (m_monitor ops eng uid outcomes) (\<lambda>(bsm_result, eng).
            let anomaly = d_anomaly_score bsm_result in
            bind_err (if ev \<noteq> [] then Inr (np_mean ev)
                      else (case irv' of [] \<Rightarrow> Inl IndexError | v # _ \<Rightarrow> Inr v)) (\<lambda>r_static.
            let r_static = r_static * (1 - 1/2 * anomaly) in
            bind_err (m_vadm_step ops eng uid irv' r_static) (\<lambda>((rep, vol), eng).
            Inr (finish_step w a irv' ev rep vol eng)))))))))"

text \<open>
  \<^verbatim>\<open>self.schedule.step()\<close> of mesa's \<^verbatim>\<open>RandomActivation\<close>: every agent's \<^verbatim>\<open>step\<close>, in a
  shuffled order. The order is a parameter.
\<close>

fun schedule_step :: "'m modules \<Rightarrow> int list \<Rightarrow> 'm world \<Rightarrow> error + 'm world" where
  "schedule_step ops [] w = Inr w"
| "schedule_step ops (uid # order) w = bind_err (agent_step ops w uid) (schedule_step ops order)"

text \<open>The scenario objects of \<^verbatim>\<open>scenarios.py\<close>; \<^verbatim>\<open>CollusionFarmingScenario\<close> carries its \<^verbatim>\<open>_colluders\<close>.\<close>

datatype scenario = NoScenario | SleeperAgent | TransgressionRecovery | CollusionFarming "int list"

text \<open>
  The loop over \<^verbatim>\<open>model._attacker_ids\<close> shared by the first two scenarios; \<open>active\<close> is the
  list of the ids that are not isolated.
\<close>

fun force_loop :: "'m modules \<Rightarrow> int list \<Rightarrow> int \<Rightarrow> int list \<Rightarrow> 'm \<Rightarrow> error + 'm" where
  "force_loop ops active outcome [] eng = Inr eng"
| "force_loop ops active outcome (uid # uids) eng =
     (if uid \<notin> set active then force_loop ops active outcome uids eng
      else let targets = filter (\<lambda>x. x \<noteq> uid) active in
           if targets = [] then force_loop ops active outcome uids eng
           else bind_err (m_choice ops eng targets) (\<lambda>(t, eng).
                bind_err (m_force_interaction ops eng uid t outcome)
                  (force_loop ops active outcome uids)))"

fun force_all :: "'m modules \<Rightarrow> (int \<times> int) list \<Rightarrow> 'm \<Rightarrow> error + 'm" where
  "force_all ops [] eng = Inr eng"
| "force_all ops ((uid, target) # ps) eng =
     bind_err (m_force_interaction ops eng uid target 1) (force_all ops ps)"

text \<open>\<^verbatim>\<open>scenario.inject(model)\<close>; the colluders' lookup raises for an id that is no agent's.\<close>

fun active_colluders :: "'m world \<Rightarrow> int list \<Rightarrow> error + int list" where
  "active_colluders w [] = Inr []"
| "active_colluders w (uid # uids) =
     (case get_agent w uid of
        None \<Rightarrow> Inl KeyError
      | Some a \<Rightarrow> bind_err (active_colluders w uids)
                   (\<lambda>rest. Inr (if \<not> isolated a then uid # rest else rest)))"

fun inject :: "'m modules \<Rightarrow> scenario \<Rightarrow> 'm world \<Rightarrow> error + 'm world" where
  "inject ops NoScenario w = Inr w"
| "inject ops SleeperAgent w =
     (let outcome = (if current_step w < 201 then 1 else 0) in
      bind_err (force_loop ops (all_ids w) outcome (attacker_ids w) (engine w))
        (\<lambda>eng. Inr (w\<lparr>engine := eng\<rparr>)))"
| "inject ops TransgressionRecovery w =
     (let t = current_step w;
          outcome = (if t < 101 then 1 else if t < 201 then 0 else 1);
          w = (if t < 101 \<or> t < 201 then w
               else w\<lparr>agents := map (\<lambda>a. if unique_id a \<in> set (attacker_ids w)
                                           then a\<lparr>is_attacker := False\<rparr> else a) (agents w)\<rparr>)
      in bind_err (force_loop ops (all_ids w) outcome (attacker_ids w) (engine w))
           (\<lambda>eng. Inr (w\<lparr>engine := eng\<rparr>)))"
| "inject ops (CollusionFarming colluders) w =
     bind_err (active_colluders w colluders) (\<lambda>act.
     bind_err (force_all ops [(uid, target). uid \<leftarrow> act, target \<leftarrow> act, target \<noteq> uid] (engine w))
       (\<lambda>eng. Inr (w\<lparr>engine := eng\<rparr>)))"

text \<open>\<^verbatim>\<open>ChronosRepModel.step\<close>, for the scenario the model was built with and one shuffled order.\<close>

definition model_step :: "'m modules \<Rightarrow> scenario \<Rightarrow> int list \<Rightarrow> 'm world \<Rightarrow> error + 'm world" where
  "model_step ops scen order w =
     (let w = w\<lparr>newly_isolated := {}\<rparr>;
          w = w\<lparr>current_step := current_step w + 1\<rparr> in
      bind_err (inject ops scen w) (\<lambda>w.
      bind_err (schedule_step ops order w) (\<lambda>w.
      bind_err (m_tick ops (engine w)) (\<lambda>eng.
      let w = w\<lparr>engine := eng\<rparr> in
      Inr (w\<lparr>isolation_step :=
               (\<lambda>uid. if uid \<in> newly_isolated w \<and> isolation_step w uid = None
                       then Some (current_step w) else isolation_step w uid)\<rparr>)))))"

text \<open>Successive model steps, one shuffled order for each.\<close>

fun model_steps :: "'m modules \<Rightarrow> scenario \<Rightarrow> int list list \<Rightarrow> 'm world \<Rightarrow> error + 'm world" where
  "model_steps ops scen [] w = Inr w"
| "model_steps ops scen (order # orders) w =
     bind_err (model_step ops scen order w) (model_steps ops scen orders)"

text \<open>
  The agent with id \<open>i\<close> exists, and every agent object of that id is isolated with
  reputation \<open>r\<close> and volatility \<open>v\<close>.
\<close>

definition isolated_as :: "'m world \<Rightarrow> int \<Rightarrow> real \<Rightarrow> real \<Rightarrow> bool" where
  "isolated_as w i r v \<longleftrightarrow>
     i \<in> unique_id ` set (agents w) \<and>
     (\<forall>a \<in> set (agents w). unique_id a = i \<longrightarrow> isolated a \<and> reputation a = r \<and> volatility a = v)"


section \<open>Credential synthesizer (chronosrep/modules/vcgen.py)\<close>

text \<open>
  The module builds its own generator \<^verbatim>\<open>random.Random(seed)\<close> in every call and reads
  the wall clock with \<^verbatim>\<open>int(time.time())\<close>. The generator, \<^verbatim>\<open>hashlib\<close> and \<^verbatim>\<open>round\<close> are
  library code: they are parameters of the model, as operations on an rng state of type
  \<open>'r\<close>. \<open>lib_choice\<close> and \<open>lib_choices\<close> return the elements drawn; \<open>lib_sha3_hex32\<close> is
  \<^verbatim>\<open>hashlib.sha3_256(v.to_bytes(16, "big")).hexdigest()[:32]\<close>; \<open>lib_round4\<close> is
  \<^verbatim>\<open>round(x, 4)\<close>. The clock is a parameter too: \<open>clock k\<close> is what the \<open>k\<close>-th reading of
  \<^verbatim>\<open>int(time.time())\<close> during the call returns, and the state threaded through a call is
  the rng state with the number of readings made so far.
\<close>

record 'r vc_lib =
  lib_seed :: "int \<Rightarrow> 'r"
  lib_random :: "'r \<Rightarrow> real \<times> 'r"
  lib_uniform :: "'r \<Rightarrow> real \<Rightarrow> real \<Rightarrow> real \<times> 'r"
  lib_randint :: "'r \<Rightarrow> int \<Rightarrow> int \<Rightarrow> int \<times> 'r"
  lib_getrandbits :: "'r \<Rightarrow> nat \<Rightarrow> int \<times> 'r"
  lib_choice :: "'r \<Rightarrow> attr_value list \<Rightarrow> attr_value \<times> 'r"
  lib_choices :: "'r \<Rightarrow> string list \<Rightarrow> real list option \<Rightarrow> int \<Rightarrow> string list \<times> 'r"
  lib_sha3_hex32 :: "int \<Rightarrow> string"
  lib_round4 :: "real \<Rightarrow> real"

type_synonym 'r gen_state = "'r \<times> nat"

definition S_TR_UK :: hyp where
  "S_TR_UK = {Trusted, Unknown}"

definition S_UN_UK :: hyp where
  "S_UN_UK = {Untrusted, Unknown}"

definition VC_TYPES :: "string list" where
  "VC_TYPES = [''KYC'', ''DID_DOC'', ''BEHAVIORAL'', ''DELEGATED'', ''GOVERNANCE'']"

definition ISSUER_TIERS :: "string list" where
  "ISSUER_TIERS = [''ROOT_CA'', ''INTERMEDIATE_CA'', ''LEAF_ISSUER'']"

definition ATTR_KEY_MAP :: "(string \<times> string list) list" where
  "ATTR_KEY_MAP =
     [(''KYC'', [''identity_hash'', ''nationality_code'', ''risk_band'', ''kyc_level'']),
      (''DID_DOC'', [''did_method'', ''pub_key_alg'', ''rotation_count'', ''linked_domain'']),
      (''BEHAVIORAL'', [''tx_count_30d'', ''avg_tx_value'', ''flagged_ratio'', ''peer_score'']),
      (''DELEGATED'', [''delegator_id'', ''delegation_depth'', ''scope_bitmask'', ''expiry_epoch'']),
      (''GOVERNANCE'', [''dao_id'', ''vote_weight'', ''proposal_count'', ''slash_count''])]"

definition TIER_TRUST_RANGE :: "(string \<times> (real \<times> real)) list" where
  "TIER_TRUST_RANGE =
     [(''ROOT_CA'', (88/100, 1)), (''INTERMEDIATE_CA'', (70/100, 90/100)),
      (''LEAF_ISSUER'', (45/100, 75/100))]"

definition REVOCATION_PROB_HONEST :: real where
  "REVOCATION_PROB_HONEST = 2/100"

definition REVOCATION_PROB_ATTACKER :: real where
  "REVOCATION_PROB_ATTACKER = 35/100"

text \<open>\<^verbatim>\<open>d[k]\<close> on a dict kept as an association list: a missing key raises.\<close>

definition dict_index :: "('k \<times> 'v) list \<Rightarrow> 'k \<Rightarrow> error + 'v" where
  "dict_index d k = (case map_of d k of None \<Rightarrow> Inl KeyError | Some v \<Rightarrow> Inr v)"

text \<open>\<^verbatim>\<open>sub in s\<close> on strings.\<close>

fun contains :: "string \<Rightarrow> string \<Rightarrow> bool" where
  "contains sub [] = (sub = [])"
| "contains sub (c # s) = (take (length sub) (c # s) = sub \<or> contains sub s)"

text \<open>\<^verbatim>\<open>str(n)\<close> for a natural number, and the format \<^verbatim>\<open>{n:04d}\<close> of an integer.\<close>

fun decimal :: "nat \<Rightarrow> string" where
  "decimal n = (if n < 10 then [''0123456789'' ! n]
                else decimal (n div 10) @ [''0123456789'' ! (n mod 10)])"

definition fmt_04d :: "int \<Rightarrow> string" where
  "fmt_04d n =
     (let sign = (if n < 0 then ''-'' else '''');
          digits = decimal (nat \<bar>n\<bar>)
      in sign @ replicate (4 - length sign - length digits) (CHR ''0'') @ digits)"

definition build_honest_bba :: "'r vc_lib \<Rightarrow> 'r \<Rightarrow> error + (bba \<times> 'r)" where
  "build_honest_bba lib rng =
     (let (m_tr, rng) = lib_uniform lib rng (50/100) (78/100);
          (m_uk, rng) = lib_uniform lib rng (4/100) (18/100);
          (m_fr, rng) = lib_uniform lib rng (3/100) (10/100);
          residual = max 0 (1 - m_tr - m_uk - m_fr);
          (u, rng) = lib_uniform lib rng 0 (12/100);
          m_un = residual * u;
          (u, rng) = lib_uniform lib rng 0 (8/100);
          m_tr_uk = residual * u;
          raw = [(S_TR, m_tr), (S_UN, m_un), (S_UK, m_uk), (S_TR_UK, m_tr_uk), (FRAME, m_fr)];
          total = sum_list (map snd raw)
      in if total = 0 then Inl ZeroDivisionError
         else Inr (map (\<lambda>(k, v). (k, v / total)) raw, rng))"

definition build_attacker_bba :: "'r vc_lib \<Rightarrow> 'r \<Rightarrow> error + (bba \<times> 'r)" where
  "build_attacker_bba lib rng =
     (let (m_un, rng) = lib_uniform lib rng (48/100) (72/100);
          (m_uk, rng) = lib_uniform lib rng (10/100) (24/100);
          (m_fr, rng) = lib_uniform lib rng (5/100) (14/100);
          residual = max 0 (1 - m_un - m_uk - m_fr);
          (u, rng) = lib_uniform lib rng 0 (8/100);
          m_tr = residual * u;
          (u, rng) = lib_uniform lib rng 0 (10/100);
          m_un_uk = residual * u;
          raw = [(S_TR, m_tr), (S_UN, m_un), (S_UK, m_uk), (S_UN_UK, m_un_uk), (FRAME, m_fr)];
          total = sum_list (map snd raw)
      in if total = 0 then Inl ZeroDivisionError
         else Inr (map (\<lambda>(k, v). (k, v / total)) raw, rng))"

text \<open>The dict \<^verbatim>\<open>choices_map\<close> of \<^verbatim>\<open>_build_attributes\<close>.\<close>

definition choices_map :: "bool \<Rightarrow> (string \<times> attr_value list) list" where
  "choices_map is_att =
     [(''risk_band'', if is_att then [AStr ''LOW'', AStr ''MEDIUM'', AStr ''HIGH'']
                      else [AStr ''LOW'', AStr ''MEDIUM'']),
      (''kyc_level'', [AInt 1, AInt 2, AInt 3]),
      (''did_method'', [AStr ''did:web'', AStr ''did:key'', AStr ''did:ion'', AStr ''did:ethr'']),
      (''pub_key_alg'', [AStr ''Ed25519'', AStr ''secp256k1'', AStr ''P-256'']),
      (''nationality_code'', [AStr ''VN'', AStr ''US'', AStr ''SG'', AStr ''EU'', AStr ''UK'']),
      (''linked_domain'', [AStr ''example.com'', AStr ''defi.xyz'', AStr ''anon.io'']),
      (''dao_id'', [AStr ''dao_alpha'', AStr ''dao_beta'', AStr ''dao_gamma''])]"

text \<open>
  The branch of the \<^verbatim>\<open>if\<close>/\<^verbatim>\<open>elif\<close> chain of \<^verbatim>\<open>_build_attributes\<close> that reads the clock is
  taken for the keys that pass the first three tests and contain \<^verbatim>\<open>epoch\<close>.
\<close>

definition is_epoch_key :: "string \<Rightarrow> bool" where
  "is_epoch_key k \<longleftrightarrow>
     \<not> (contains ''hash'' k \<or> contains ''key'' k \<or> contains ''did'' k)
     \<and> \<not> (contains ''count'' k \<or> contains ''depth'' k \<or> contains ''rotation'' k)
     \<and> \<not> (contains ''ratio'' k \<or> contains ''score'' k \<or> contains ''weight'' k)
     \<and> contains ''epoch'' k"

text \<open>The value that one pass of the loop of \<^verbatim>\<open>_build_attributes\<close> stores under the key \<open>k\<close>.\<close>

definition attr_value_for ::
  "'r vc_lib \<Rightarrow> (nat \<Rightarrow> int) \<Rightarrow> string \<Rightarrow> bool \<Rightarrow> 'r gen_state \<Rightarrow> attr_value \<times> 'r gen_state" where
  "attr_value_for lib clock k is_att st =
     (let rng = fst st; reads = snd st in
      if contains ''hash'' k \<or> contains ''key'' k \<or> contains ''did'' k
      then let (seed_val, rng) = lib_getrandbits lib rng 128
           in (AStr (lib_sha3_hex32 lib seed_val), (rng, reads))
      else if contains ''count'' k \<or> contains ''depth'' k \<or> contains ''rotation'' k
      then let (v, rng) = lib_randint lib rng 0 (if is_att then 200 else 50)
           in (AInt v, (rng, reads))
      else if contains ''ratio'' k \<or> contains ''score'' k \<or> contains ''weight'' k
      then let (v, rng) = lib_uniform lib rng 0 (if is_att then 25/100 else 8/100)
           in (AFloat (lib_round4 lib v), (rng, reads))
      else if contains ''epoch'' k
      then let now = clock reads;
               (d, rng) = lib_randint lib rng 86400 31536000
           in (AInt (now + d), (rng, reads + 1))
      else if contains ''bitmask'' k
      then let (v, rng) = lib_getrandbits lib rng 16
           in (AInt v, (rng, reads))
      else if contains ''band'' k \<or> contains ''level'' k \<or> contains ''method'' k \<or> contains ''alg'' k
      then let pool = dict_get (choices_map is_att) k [AStr ''A'', AStr ''B'', AStr ''C''];
               (v, rng) = lib_choice lib rng pool
           in (v, (rng, reads))
      else let (v, rng) = lib_uniform lib rng 0 1
           in (AFloat (lib_round4 lib v), (rng, reads)))"

fun attrs_loop ::
  "'r vc_lib \<Rightarrow> (nat \<Rightarrow> int) \<Rightarrow> bool \<Rightarrow> string list \<Rightarrow> (string \<times> attr_value) list \<Rightarrow> 'r gen_state
     \<Rightarrow> (string \<times> attr_value) list \<times> 'r gen_state" where
  "attrs_loop lib clock is_att [] attrs st = (attrs, st)"
| "attrs_loop lib clock is_att (k # ks) attrs st =
     (let (v, st) = attr_value_for lib clock k is_att st
      in attrs_loop lib clock is_att ks (dict_set attrs k v) st)"

definition build_attributes ::
  "'r vc_lib \<Rightarrow> (nat \<Rightarrow> int) \<Rightarrow> string \<Rightarrow> 'r gen_state \<Rightarrow> bool
     \<Rightarrow> error + ((string \<times> attr_value) list \<times> 'r gen_state)" where
  "build_attributes lib clock vt st is_att =
     bind_err (dict_index ATTR_KEY_MAP vt)
       (\<lambda>keys. Inr (attrs_loop lib clock is_att keys [] st))"

definition issuer_tier_for_vc_type :: "'r vc_lib \<Rightarrow> string \<Rightarrow> 'r \<Rightarrow> error + (string \<times> 'r)" where
  "issuer_tier_for_vc_type lib vt rng =
     (let weights = [(''KYC'', [40/100, 40/100, 20/100]),
                     (''DID_DOC'', [20/100, 45/100, 35/100]),
                     (''BEHAVIORAL'', [5/100, 30/100, 65/100]),
                     (''DELEGATED'', [10/100, 35/100, 55/100]),
                     (''GOVERNANCE'', [30/100, 50/100, 20/100])]
      in bind_err (dict_index weights vt) (\<lambda>w.
           let (drawn, rng) = lib_choices lib rng ISSUER_TIERS (Some w) 1
           in case drawn of [] \<Rightarrow> Inl IndexError | t # _ \<Rightarrow> Inr (t, rng)))"

definition issuer_trust_for :: "'r vc_lib \<Rightarrow> string \<Rightarrow> 'r \<Rightarrow> error + (real \<times> 'r)" where
  "issuer_trust_for lib tier rng =
     bind_err (dict_index TIER_TRUST_RANGE tier) (\<lambda>(lo, hi).
       let (v, rng) = lib_uniform lib rng lo hi in Inr (lib_round4 lib v, rng))"

definition chain_depth_for :: "'r vc_lib \<Rightarrow> string \<Rightarrow> 'r \<Rightarrow> error + (int \<times> 'r)" where
  "chain_depth_for lib tier rng =
     bind_err (dict_index [(''ROOT_CA'', 0), (''INTERMEDIATE_CA'', 1), (''LEAF_ISSUER'', 2)] tier)
       (\<lambda>base. let (j, rng) = lib_randint lib rng 0 1 in Inr (base + j, rng))"

text \<open>
  One pass of the loop of \<^verbatim>\<open>VCGen.generate\<close>: the record for the \<open>i\<close>-th drawn type \<open>vt\<close>.
  The keyword arguments of \<^verbatim>\<open>VCRecord(...)\<close> are evaluated in the order they are written.
\<close>

definition generate_record ::
  "'r vc_lib \<Rightarrow> (nat \<Rightarrow> int) \<Rightarrow> int \<Rightarrow> bool \<Rightarrow> nat \<Rightarrow> string \<Rightarrow> 'r gen_state
     \<Rightarrow> error + (vc_record \<times> 'r gen_state)" where
  "generate_record lib clock agent_id is_att i vt st =
     (let rng = fst st; reads = snd st in
      bind_err (issuer_tier_for_vc_type lib vt rng) (\<lambda>(tier, rng).
      bind_err (issuer_trust_for lib tier rng) (\<lambda>(trust, rng).
      let (trust, rng) = (if is_att then let (u, rng) = lib_uniform lib rng (50/100) (85/100)
                                         in (trust * u, rng)
                          else (trust, rng));
          rev_prob = (if is_att then REVOCATION_PROB_ATTACKER else REVOCATION_PROB_HONEST);
          (x, rng) = lib_random lib rng in
      bind_err (build_attributes lib clock vt (rng, reads) is_att) (\<lambda>(attrs, st).
      let rng = fst st; reads = snd st in
      bind_err ((if is_att then build_attacker_bba else build_honest_bba) lib rng) (\<lambda>(b, rng).
      let now = clock reads;
          reads = reads + 1;
          (d, rng) = lib_randint lib rng 0 31536000 in
      bind_err (chain_depth_for lib tier rng) (\<lambda>(depth, rng).
      Inr (\<lparr>vc_id = ''vc-'' @ fmt_04d agent_id @ ''-'' @ decimal i @ ''-'' @ take 3 vt,
            vc_type = vt, issuer_tier = tier, issuer_trust = lib_round4 lib trust,
            subject_id = agent_id, revoked = (x < rev_prob), attributes = attrs, bba = b,
            issuance_ts = now - d, chain_depth = depth\<rparr>,
           (rng, reads))))))))"

fun generate_loop ::
  "'r vc_lib \<Rightarrow> (nat \<Rightarrow> int) \<Rightarrow> int \<Rightarrow> bool \<Rightarrow> nat \<Rightarrow> string list \<Rightarrow> 'r gen_state
     \<Rightarrow> error + vc_record list" where
  "generate_loop lib clock agent_id is_att i [] st = Inr []"
| "generate_loop lib clock agent_id is_att i (vt # vts) st =
     bind_err (generate_record lib clock agent_id is_att i vt st) (\<lambda>(r, st).
     bind_err (generate_loop lib clock agent_id is_att (Suc i) vts st) (\<lambda>rs.
     Inr (r # rs)))"

text \<open>
  \<^verbatim>\<open>VCGen.generate\<close> for an instance built with \<open>seed_offset\<close>. Its arguments are the
  instance, the call's arguments and what the call reads from its surroundings (the
  clock); there is no generator state among them, and none is returned.
\<close>

definition generate ::
  "'r vc_lib \<Rightarrow> int \<Rightarrow> (nat \<Rightarrow> int) \<Rightarrow> int \<Rightarrow> int \<Rightarrow> bool \<Rightarrow> error + vc_record list" where
  "generate lib seed_offset clock agent_id n_credentials is_att =
     (let rng = lib_seed lib (agent_id + seed_offset * 100003);
          (vc_types, rng) = lib_choices lib rng VC_TYPES None n_credentials
      in generate_loop lib clock agent_id is_att 0 vc_types (rng, 0))"

text \<open>
  A record with the two values that come from the clock blanked: the issuance timestamp
  and the attribute stored by the clock-reading branch.
\<close>

definition erase_attr :: "string \<times> attr_value \<Rightarrow> string \<times> attr_value" where
  "erase_attr kv = (fst kv, if is_epoch_key (fst kv) then AInt 0 else snd kv)"

definition erase_time :: "vc_record \<Rightarrow> vc_record" where
  "erase_time r = r\<lparr>issuance_ts := 0, attributes := map erase_attr (attributes r)\<rparr>"

text \<open>
  A scripted generator for running the model: the rng state is a counter that every draw
  advances by one, and seeding with \<open>s\<close> sets it to \<open>s\<close> (to 0 for a negative \<open>s\<close>).
  Every real draw returns the lower bound, every integer draw the lower bound, \<^verbatim>\<open>choice\<close>
  the first element, and \<^verbatim>\<open>choices\<close> the element at the position given by the counter,
  \<open>k\<close> times.
\<close>

definition scripted_lib :: "nat vc_lib" where
  "scripted_lib =
     \<lparr>lib_seed = (\<lambda>s. nat s),
      lib_random = (\<lambda>r. (1/2, Suc r)),
      lib_uniform = (\<lambda>r lo hi. (lo, Suc r)),
      lib_randint = (\<lambda>r lo hi. (lo, Suc r)),
      lib_getrandbits = (\<lambda>r k. (0, Suc r)),
      lib_choice = (\<lambda>r pool. (case pool of [] \<Rightarrow> AStr [] | v # _ \<Rightarrow> v, Suc r)),
      lib_choices = (\<lambda>r population weights k.
         (case population of [] \<Rightarrow> []
          | _ # _ \<Rightarrow> replicate (nat k) (population ! (r mod length population)), Suc r)),
      lib_sha3_hex32 = (\<lambda>v. replicate 32 (CHR ''0'')),
      lib_round4 = (\<lambda>x. x)\<rparr>"


text \<open>
  The record that the scripted generator produces for agent 3 (seed 3, type
  \<^verbatim>\<open>DELEGATED\<close>), with the two values that depend on the clock left open.
\<close>

definition delegated_record :: "int \<Rightarrow> int \<Rightarrow> vc_record" where
  "delegated_record expiry issued =
     \<lparr>vc_id = ''vc-0003-0-DEL'', vc_type = ''DELEGATED'', issuer_tier = ''INTERMEDIATE_CA'',
      issuer_trust = 7/10, subject_id = 3, revoked = False,
      attributes = [(''delegator_id'', AFloat 0), (''delegation_depth'', AInt 0),
                    (''scope_bitmask'', AInt 0), (''expiry_epoch'', AInt expiry)],
      bba = [(S_TR, 50/57), (S_UN, 0), (S_UK, 4/57), (S_TR_UK, 0), (FRAME, 1/19)],
      issuance_ts = issued, chain_depth = 1\<rparr>"


text \<open>
  Two runs of a computation that may raise, side by side: they raise the same error, or
  both return, with the same state and with values related by \<open>R\<close>.
\<close>

definition same_run :: "('a \<Rightarrow> 'a \<Rightarrow> bool) \<Rightarrow> error + ('a \<times> 's) \<Rightarrow> error + ('a \<times> 's) \<Rightarrow> bool" where
  "same_run R x y \<longleftrightarrow>
     (\<exists>e. x = Inl e \<and> y = Inl e) \<or> (\<exists>v1 v2 s. x = Inr (v1, s) \<and> y = Inr (v2, s) \<and> R v1 v2)"


text \<open>
  A postcondition on the normal results of a computation that may raise, for walking
  through the calls of \<^verbatim>\<open>ChronosAgent.step\<close>.
\<close>

definition ends_in :: "('a \<Rightarrow> bool) \<Rightarrow> error + 'a \<Rightarrow> bool" where
  "ends_in Q m \<longleftrightarrow> (\<forall>y. m = Inr y \<longrightarrow> Q y)"

text \<open>
  A small model for running the loop: module operations that keep no state (no
  credentials, a fixed evidence vector with first component 0.3, no interactions, no
  anomaly, and a dynamics step that returns the static score as the new reputation), and
  two agents, of which agent 0 is isolated with reputation 0.2.
\<close>

definition demo_modules :: "unit modules" where
  "demo_modules =
     \<lparr>m_generate = (\<lambda>m uid att. Inr ([], m)),
      m_process = (\<lambda>m uid cs. Inr ([3/10, 0, 0, 3/10, 3/10], m)),
      m_generate_interactions = (\<lambda>m uid ids. Inr ([], m)),
      m_penalized_evidence = (\<lambda>m u t outcome. Inr (real_of_int outcome, m)),
      m_monitor = (\<lambda>m uid outcomes.
         Inr (\<lparr>d_agent_id = uid, d_mean_outcome = 1/2, d_entropy = 0, d_anomaly_score = 0,
               d_alarm_steps = [], d_cusum_pos = 0, d_cusum_neg = 0, d_t = 0\<rparr>, m)),
      m_vadm_step = (\<lambda>m uid v r_static. Inr ((r_static, 0), m)),
      m_tick = (\<lambda>m. Inr m),
      m_force_interaction = (\<lambda>m u v outcome. Inr m),
      m_choice = (\<lambda>m xs. case xs of [] \<Rightarrow> Inl IndexError | x # _ \<Rightarrow> Inr (x, m))\<rparr>"

definition demo_agent :: "int \<Rightarrow> real \<Rightarrow> bool \<Rightarrow> chronos_agent" where
  "demo_agent uid rep isol =
     \<lparr>unique_id = uid, irv = [0, 0, 0, 0, 0], reputation = rep, volatility = 0,
      evidence = [], isolated = isol, is_attacker = False\<rparr>"

definition demo_world :: "unit world" where
  "demo_world =
     \<lparr>agents = [demo_agent 0 (1/5) True, demo_agent 1 (1/2) False], engine = (), tau = 2/5,
      current_step = 0, newly_isolated = {}, isolation_step = Map.empty, attacker_ids = []\<rparr>"


text \<open>
  Two families of module operations that differ at most on the calls made for agent
  \<open>i\<close> and on the calls that are offered a list of ids with \<open>i\<close> in it: \<open>ops'\<close> does what
  \<open>ops\<close> does on every call whose calling agent is not \<open>i\<close> and whose id list (the
  interaction pool, the list a scenario draws a target from) does not contain \<open>i\<close>.
\<close>

definition agree_off :: "int \<Rightarrow> 'm modules \<Rightarrow> 'm modules \<Rightarrow> bool" where
  "agree_off i ops ops' \<longleftrightarrow>
     (\<forall>m u att. u \<noteq> i \<longrightarrow> m_generate ops' m u att = m_generate ops m u att)
   \<and> (\<forall>m u cs. u \<noteq> i \<longrightarrow> m_process ops' m u cs = m_process ops m u cs)
   \<and> (\<forall>m u ids. u \<noteq> i \<and> i \<notin> set ids \<longrightarrow>
          m_generate_interactions ops' m u ids = m_generate_interactions ops m u ids)
   \<and> (\<forall>m u t outcome. u \<noteq> i \<longrightarrow>
          m_penalized_evidence ops' m u t outcome = m_penalized_evidence ops m u t outcome)
   \<and> (\<forall>m u outcomes. u \<noteq> i \<longrightarrow> m_monitor ops' m u outcomes = m_monitor ops m u outcomes)
   \<and> (\<forall>m u v r. u \<noteq> i \<longrightarrow> m_vadm_step ops' m u v r = m_vadm_step ops m u v r)
   \<and> (\<forall>m. m_tick ops' m = m_tick ops m)
   \<and> (\<forall>m u v outcome. u \<noteq> i \<longrightarrow>
          m_force_interaction ops' m u v outcome = m_force_interaction ops m u v outcome)
   \<and> (\<forall>m xs. i \<notin> set xs \<longrightarrow> m_choice ops' m xs = m_choice ops m xs)"

text \<open>
  The small model with a tripwire for agent \<open>i\<close>: every operation raises when it is
  called for agent \<open>i\<close> or offered a list of ids that contains \<open>i\<close>.
\<close>

definition tripwire_modules :: "int \<Rightarrow> unit modules" where
  "tripwire_modules i =
     \<lparr>m_generate = (\<lambda>m uid att. if uid = i then Inl KeyError else m_generate demo_modules m uid att),
      m_process = (\<lambda>m uid cs. if uid = i then Inl KeyError else m_process demo_modules m uid cs),
      m_generate_interactions = (\<lambda>m uid ids.
         if uid = i \<or> i \<in> set ids then Inl KeyError
         else m_generate_interactions demo_modules m uid ids),
      m_penalized_evidence = (\<lambda>m u t outcome.
         if u = i then Inl KeyError else m_penalized_evidence demo_modules m u t outcome),
      m_monitor = (\<lambda>m uid outcomes.
         if uid = i then Inl KeyError else m_monitor demo_modules m uid outcomes),
      m_vadm_step = (\<lambda>m uid v r_static.
         if uid = i then Inl KeyError else m_vadm_step demo_modules m uid v r_static),
      m_tick = m_tick demo_modules,
      m_force_interaction = (\<lambda>m u v outcome.
         if u = i then Inl KeyError else m_force_interaction demo_modules m u v outcome),
      m_choice = (\<lambda>m xs. if i \<in> set xs then Inl KeyError else m_choice demo_modules m xs)\<rparr>"

text \<open>The two agents of the small model, both active.\<close>

definition active_world :: "unit world" where
  "active_world = demo_world\<lparr>agents := [demo_agent 0 (1/5) False, demo_agent 1 (1/2) False]\<rparr>"


section \<open>Properties of the evidence fusion engine\<close>

lemma label_UNIV: "UNIV = {Trusted, Untrusted, Unknown}"
  using label.exhaust by auto

instance label :: finite
proof
  show "finite (UNIV :: label set)" by (simp add: label_UNIV)
qed

lemma hyp_eq_iff: "(A::hyp) = B \<longleftrightarrow>
   ((Trusted \<in> A) = (Trusted \<in> B)) \<and> ((Untrusted \<in> A) = (Untrusted \<in> B)) \<and> ((Unknown \<in> A) = (Unknown \<in> B))"
proof
  assume r: "((Trusted \<in> A) = (Trusted \<in> B)) \<and> ((Untrusted \<in> A) = (Untrusted \<in> B)) \<and> ((Unknown \<in> A) = (Unknown \<in> B))"
  show "A = B"
  proof (rule set_eqI)
    fix x show "(x \<in> A) = (x \<in> B)" using r by (cases x) simp_all
  qed
qed simp

lemma distinct_SUBSETS: "distinct SUBSETS"
  by (simp add: SUBSETS_def hyp_eq_iff)

lemma set_SUBSETS: "set SUBSETS = {A. A \<noteq> {}}"
proof -
  have "A \<noteq> {} \<Longrightarrow> A \<in> set SUBSETS" for A :: hyp
    by (cases "Trusted \<in> A"; cases "Untrusted \<in> A"; cases "Unknown \<in> A")
       (simp_all add: SUBSETS_def hyp_eq_iff)
  moreover have "A \<in> set SUBSETS \<Longrightarrow> A \<noteq> {}" for A :: hyp
    by (auto simp: SUBSETS_def)
  ultimately show ?thesis by blast
qed

lemma sum_list_guard:
  "sum_list (concat (map (\<lambda>x. if P x then [f x] else []) xs)) = sum_list (map (\<lambda>x. if P x then f x else (0::real)) xs)"
  by (induction xs) simp_all

lemma sum_list_pairs:
  "sum_list (concat (map (\<lambda>B. concat (map (\<lambda>C. if P B C then [f B C] else []) ys)) xs))
     = sum_list (map (\<lambda>B. sum_list (map (\<lambda>C. if P B C then f B C else (0::real)) ys)) xs)"
  by (induction xs) (simp_all add: sum_list_guard)

lemma sum_SUBSETS: "sum_list (map f SUBSETS) = (\<Sum>A \<in> {A. A \<noteq> {}}. (f A :: real))"
  using sum_list_distinct_conv_sum_set [OF distinct_SUBSETS, of f] by (simp add: set_SUBSETS)

lemma combine_mass_sum:
  "combine_mass m1 m2 A = (\<Sum>B \<in> {B. B \<noteq> {}}. \<Sum>C \<in> {C. C \<noteq> {}}. if B \<inter> C = A then dict_get m1 B 0 * dict_get m2 C 0 else 0)"
  unfolding combine_mass_def by (simp add: sum_list_pairs sum_SUBSETS)


lemma pair_sum_nested:
  "pair_sum m1 m2 C = (\<Sum>A \<in> {A. A \<noteq> {}}. \<Sum>B \<in> {B. B \<noteq> {}}. if A \<inter> B = C then dict_get m1 A 0 * dict_get m2 B 0 else 0)"
proof -
  let ?NE = "{A::hyp. A \<noteq> {}}"
  let ?g = "\<lambda>p. dict_get m1 (fst p) 0 * dict_get m2 (snd p) 0"
  have eq: "{(A, B). A \<noteq> {} \<and> B \<noteq> {} \<and> A \<inter> B = C} = {p \<in> ?NE \<times> ?NE. fst p \<inter> snd p = C}"
    by auto
  have "pair_sum m1 m2 C = (\<Sum>p \<in> {p \<in> ?NE \<times> ?NE. fst p \<inter> snd p = C}. ?g p)"
    unfolding pair_sum_def eq by (simp add: case_prod_beta)
  also have "\<dots> = (\<Sum>p \<in> ?NE \<times> ?NE. if fst p \<inter> snd p = C then ?g p else 0)"
    by (rule sum.inter_filter) simp
  also have "\<dots> = (\<Sum>A \<in> ?NE. \<Sum>B \<in> ?NE. if A \<inter> B = C then dict_get m1 A 0 * dict_get m2 B 0 else 0)"
    by (simp add: sum.cartesian_product case_prod_beta)
  finally show ?thesis .
qed

lemma combine_mass_pair_sum: "combine_mass m1 m2 A = pair_sum m1 m2 A"
  by (simp add: combine_mass_sum pair_sum_nested)

lemma conflict_coeff_pair_sum: "conflict_coeff m1 m2 = min (pair_sum m1 m2 {}) 1"
  unfolding conflict_coeff_def by (simp add: sum_list_pairs sum_SUBSETS pair_sum_nested)

lemma dict_get_absent: "k \<notin> fst ` set d \<Longrightarrow> dict_get d k dflt = dflt"
  by (simp add: dict_get_def map_of_eq_None_iff [THEN iffD2])

lemma dict_get_sum:
  "distinct (map fst b) \<Longrightarrow> fst ` set b \<subseteq> S \<Longrightarrow> finite S \<Longrightarrow>
     (\<Sum>A \<in> S. dict_get b A 0) = sum_list (map snd (b :: ('k \<times> real) list))"
proof (induction b)
  case Nil
  then show ?case by (simp add: dict_get_def)
next
  case (Cons p b)
  obtain k v where p: "p = (k, v)" by (cases p)
  have kS: "k \<in> S" and kb: "k \<notin> fst ` set b" using Cons.prems p by auto
  have step: "dict_get (p # b) A 0 = (if A = k then v else 0) + (if A = k then 0 else dict_get b A 0)" for A
    by (simp add: p dict_get_def)
  have "(\<Sum>A \<in> S. if A = k then 0 else dict_get b A 0) = (\<Sum>A \<in> S. dict_get b A 0)"
    by (rule sum.cong) (simp_all add: dict_get_absent [OF kb])
  moreover have "(\<Sum>A \<in> S. if A = k then v else 0) = v"
    using kS Cons.prems(3) by simp
  ultimately have "(\<Sum>A \<in> S. dict_get (p # b) A 0) = v + (\<Sum>A \<in> S. dict_get b A 0)"
    by (simp add: step sum.distrib)
  also have "\<dots> = v + sum_list (map snd b)"
    using Cons.IH Cons.prems by simp
  finally show ?case by (simp add: p)
qed

lemma normalized_sum:
  assumes "normalized_bba b"
  shows "(\<Sum>A \<in> {A. A \<noteq> {}}. dict_get b A 0) = 1"
proof -
  have "fst ` set b \<subseteq> {A. A \<noteq> {}}" using assms by (auto simp: normalized_bba_def)
  then show ?thesis
    using dict_get_sum [of b "{A. A \<noteq> {}}"] assms by (simp add: normalized_bba_def total_mass_def)
qed

lemma normalized_nonneg:
  assumes "normalized_bba b"
  shows "0 \<le> dict_get b A 0"
proof (cases "map_of b A")
  case None
  then show ?thesis by (simp add: dict_get_def)
next
  case (Some v)
  then have "(A, v) \<in> set b" by (rule map_of_SomeD)
  then show ?thesis using assms Some by (auto simp: normalized_bba_def dict_get_def)
qed

lemma pair_sum_nonneg:
  assumes "normalized_bba m1" "normalized_bba m2"
  shows "0 \<le> pair_sum m1 m2 C"
  unfolding pair_sum_nested
  by (intro sum_nonneg) (simp add: normalized_nonneg [OF assms(1)] normalized_nonneg [OF assms(2)])

lemma pair_sum_total:
  assumes "normalized_bba m1" "normalized_bba m2"
  shows "(\<Sum>C \<in> {C. C \<noteq> {}}. pair_sum m1 m2 C) + pair_sum m1 m2 {} = 1"
proof -
  let ?NE = "{A::hyp. A \<noteq> {}}"
  let ?f = "\<lambda>A B. dict_get m1 A 0 * dict_get m2 B 0"
  have "(\<Sum>C \<in> ?NE. pair_sum m1 m2 C) = (\<Sum>A \<in> ?NE. \<Sum>B \<in> ?NE. \<Sum>C \<in> ?NE. if A \<inter> B = C then ?f A B else 0)"
    unfolding pair_sum_nested
    by (subst sum.swap, rule sum.cong, simp, subst sum.swap, simp)
  also have "\<dots> = (\<Sum>A \<in> ?NE. \<Sum>B \<in> ?NE. if A \<inter> B \<noteq> {} then ?f A B else 0)"
    by (intro sum.cong refl) auto
  finally have "(\<Sum>C \<in> ?NE. pair_sum m1 m2 C) + pair_sum m1 m2 {}
      = (\<Sum>A \<in> ?NE. \<Sum>B \<in> ?NE. (if A \<inter> B \<noteq> {} then ?f A B else 0) + (if A \<inter> B = {} then ?f A B else 0))"
    unfolding pair_sum_nested [of m1 m2 "{}"]
    by (simp add: sum.distrib)
  also have "\<dots> = (\<Sum>A \<in> ?NE. \<Sum>B \<in> ?NE. ?f A B)"
    by (intro sum.cong refl) simp
  also have "\<dots> = (\<Sum>A \<in> ?NE. dict_get m1 A 0) * (\<Sum>B \<in> ?NE. dict_get m2 B 0)"
    by (simp add: sum_product)
  finally show ?thesis
    by (simp add: normalized_sum [OF assms(1)] normalized_sum [OF assms(2)])
qed

lemma combine_unfold:
  "chronosrep_combine m1 m2 =
     (if conflict_coeff m1 m2 \<ge> 1 then [(FRAME, 1)]
      else concat (map (\<lambda>A. if pair_sum m1 m2 A > 0
                                then [(A, pair_sum m1 m2 A / (1 - conflict_coeff m1 m2))] else [])
                       SUBSETS))"
  by (simp add: chronosrep_combine_def Let_def combine_mass_pair_sum)

lemma map_of_guarded:
  "map_of (concat (map (\<lambda>A. if P A then [(A, f A)] else []) xs)) C =
     (if C \<in> set xs \<and> P C then Some (f C) else None)"
  by (induction xs) auto

lemma keys_guarded:
  "map fst (concat (map (\<lambda>A. if P A then [(A, f A)] else []) xs)) = filter P xs"
  by (induction xs) auto

lemma total_guarded:
  "sum_list (map snd (concat (map (\<lambda>A. if P A then [(A, f A)] else []) xs)))
     = sum_list (map (\<lambda>A. if P A then f A else (0::real)) xs)"
  by (induction xs) auto

lemma FRAME_nonempty: "FRAME \<noteq> {}"
  by (simp add: FRAME_def)

text \<open>
  Claim C6. For two BBAs with non-negative masses on non-empty hypotheses that sum to 1:
  the conflict coefficient is the sum of \<open>m1(A) * m2(B)\<close> over the pairs with empty
  intersection, capped at 1; when it reaches 1 the fusion is full mass on the frame;
  otherwise the fused dict has distinct keys and holds, for exactly the non-empty
  hypotheses \<open>C\<close> whose pair sum is positive, that pair sum divided by \<open>1 - K\<close>;
  in both cases no mass sits on the empty set and the masses sum to 1.
\<close>

theorem combine_fusion_rule:
  assumes "normalized_bba m1" and "normalized_bba m2"
  shows "conflict_coeff m1 m2 = min (pair_sum m1 m2 {}) 1
       \<and> (conflict_coeff m1 m2 \<ge> 1 \<longrightarrow> chronosrep_combine m1 m2 = [(FRAME, 1)])
       \<and> (conflict_coeff m1 m2 < 1 \<longrightarrow>
            distinct (map fst (chronosrep_combine m1 m2)) \<and>
            (\<forall>C. map_of (chronosrep_combine m1 m2) C =
                   (if C \<noteq> {} \<and> pair_sum m1 m2 C > 0
                    then Some (pair_sum m1 m2 C / (1 - conflict_coeff m1 m2)) else None)))
       \<and> map_of (chronosrep_combine m1 m2) {} = None
       \<and> total_mass (chronosrep_combine m1 m2) = 1"
proof -
  let ?K = "conflict_coeff m1 m2"
  let ?NE = "{A::hyp. A \<noteq> {}}"
  have ge: "?K \<ge> 1 \<Longrightarrow> chronosrep_combine m1 m2 = [(FRAME, 1)]"
    by (simp add: combine_unfold)
  have lt: "chronosrep_combine m1 m2 =
       concat (map (\<lambda>A. if pair_sum m1 m2 A > 0 then [(A, pair_sum m1 m2 A / (1 - ?K))] else []) SUBSETS)"
    if "?K < 1"
    using that by (simp add: combine_unfold)
  have dist: "distinct (map fst (chronosrep_combine m1 m2))" if "?K < 1"
    by (simp add: lt [OF that] keys_guarded distinct_SUBSETS)
  have look: "map_of (chronosrep_combine m1 m2) C =
       (if C \<noteq> {} \<and> pair_sum m1 m2 C > 0 then Some (pair_sum m1 m2 C / (1 - ?K)) else None)"
    if "?K < 1" for C
    by (simp add: lt [OF that] map_of_guarded set_SUBSETS)
  have empty: "map_of (chronosrep_combine m1 m2) {} = None"
  proof (cases "?K < 1")
    case True
    then show ?thesis by (simp add: look)
  next
    case False
    then show ?thesis using FRAME_nonempty by (simp add: combine_unfold)
  qed
  have total: "total_mass (chronosrep_combine m1 m2) = 1"
  proof (cases "?K < 1")
    case True
    then have K: "?K = pair_sum m1 m2 {}" by (simp add: conflict_coeff_pair_sum)
    have "total_mass (chronosrep_combine m1 m2)
        = (\<Sum>A \<in> ?NE. if pair_sum m1 m2 A > 0 then pair_sum m1 m2 A / (1 - ?K) else 0)"
      by (simp add: lt [OF True] total_mass_def total_guarded sum_SUBSETS)
    also have "\<dots> = (\<Sum>A \<in> ?NE. pair_sum m1 m2 A / (1 - ?K))"
    proof (rule sum.cong)
      fix A
      show "(if pair_sum m1 m2 A > 0 then pair_sum m1 m2 A / (1 - ?K) else 0) = pair_sum m1 m2 A / (1 - ?K)"
        using pair_sum_nonneg [OF assms, of A] by (cases "pair_sum m1 m2 A > 0") simp_all
    qed simp
    also have "\<dots> = (\<Sum>A \<in> ?NE. pair_sum m1 m2 A) / (1 - ?K)"
      by (simp add: sum_divide_distrib)
    also have "\<dots> = (1 - pair_sum m1 m2 {}) / (1 - ?K)"
      using pair_sum_total [OF assms] by (simp add: algebra_simps)
    also have "\<dots> = 1"
      using True K by simp
    finally show ?thesis .
  next
    case False
    then show ?thesis by (simp add: combine_unfold total_mass_def)
  qed
  show ?thesis using ge dist look empty total conflict_coeff_pair_sum by blast
qed


theorem combine_fusion_rule_witness:
  "normalized_bba example_bba \<and> conflict_coeff example_bba example_bba < 1
     \<and> map_of (chronosrep_combine example_bba example_bba) {} = None
     \<and> total_mass (chronosrep_combine example_bba example_bba) = 1
     \<and> normalized_bba sure_trusted \<and> normalized_bba sure_untrusted
     \<and> conflict_coeff sure_trusted sure_untrusted \<ge> 1
     \<and> chronosrep_combine sure_trusted sure_untrusted = [(FRAME, 1)]"
proof -
  have a: "normalized_bba example_bba"
    by (simp add: normalized_bba_def example_bba_def FRAME_def total_mass_def hyp_eq_iff)
  have b: "normalized_bba sure_trusted"
    by (simp add: normalized_bba_def sure_trusted_def total_mass_def)
  have c: "normalized_bba sure_untrusted"
    by (simp add: normalized_bba_def sure_untrusted_def total_mass_def)
  have k1: "conflict_coeff example_bba example_bba < 1"
    by (simp add: conflict_coeff_def example_bba_def SUBSETS_def FRAME_def dict_get_def hyp_eq_iff)
  have k2: "conflict_coeff sure_trusted sure_untrusted \<ge> 1"
    by (simp add: conflict_coeff_def sure_trusted_def sure_untrusted_def SUBSETS_def dict_get_def
        hyp_eq_iff)
  show ?thesis
    using a b c k1 k2 combine_fusion_rule [OF a a] combine_fusion_rule [OF b c] by simp
qed

text \<open>
  Claim C5. The worked example: fusing \<open>{{trusted}: 0.6, {unknown}: 0.1, frame: 0.3}\<close>
  with itself gives conflict \<open>K = 0.12\<close> and the fused masses \<open>9/11 = 0.81818...\<close> on
  \<open>{trusted}\<close>, \<open>7/88 = 0.07954...\<close> on \<open>{unknown}\<close> and \<open>9/88 = 0.10227...\<close> on the
  frame, which sum to 1.
\<close>

theorem fusion_worked_example:
  "conflict_coeff example_bba example_bba = 12/100
     \<and> chronosrep_combine example_bba example_bba
         = [({Trusted}, 9/11), ({Unknown}, 7/88), (FRAME, 9/88)]
     \<and> total_mass (chronosrep_combine example_bba example_bba) = 1
     \<and> \<bar>9/11 - 81818/100000\<bar> < (1/100000 :: real)
     \<and> \<bar>7/88 - 7955/100000\<bar> < (1/100000 :: real)
     \<and> \<bar>9/88 - 10227/100000\<bar> < (1/100000 :: real)"
proof -
  have k: "conflict_coeff example_bba example_bba = 12/100"
    by (simp add: conflict_coeff_def example_bba_def SUBSETS_def FRAME_def dict_get_def hyp_eq_iff)
  have f: "chronosrep_combine example_bba example_bba
         = [({Trusted}, 9/11), ({Unknown}, 7/88), (FRAME, 9/88)]"
    unfolding chronosrep_combine_def k
    by (simp add: combine_mass_def example_bba_def SUBSETS_def FRAME_def dict_get_def hyp_eq_iff)
  show ?thesis
    unfolding f k by (simp add: total_mass_def)
qed


lemma downweight_total_mass:
  assumes "distinct (map fst b)"
  shows "total_mass (downweight_bba b w)
       = w * total_mass b + (if FRAME \<in> fst ` set b then 1 - w else 0)"
  using assms
proof (induction b)
  case Nil
  then show ?case by (simp add: total_mass_def downweight_bba_def Let_def)
next
  case (Cons p b)
  obtain A m where p: "p = (A, m)" by (cases p)
  have ih: "total_mass (downweight_bba b w)
       = w * total_mass b + (if FRAME \<in> fst ` set b then 1 - w else 0)"
    using Cons by simp
  have step: "total_mass (downweight_bba (p # b) w)
       = m * w + (if A = FRAME then 1 - w else 0) + total_mass (downweight_bba b w)"
    by (simp add: p total_mass_def downweight_bba_def Let_def)
  have notin: "A = FRAME \<Longrightarrow> FRAME \<notin> fst ` set b"
    using Cons.prems p by auto
  show ?case
    unfolding step ih using notin
    by (auto simp: p total_mass_def algebra_simps)
qed

text \<open>
  Claim C3. The discounting transform multiplies every mass by \<open>w\<close> and adds \<open>1 - w\<close>
  to the full-frame entry only if the dict has one (\<open>downweight_total_mass\<close>). On the
  normalized BBA \<open>{{trusted}: 1.0}\<close>, which has no full-frame key, with \<open>w = 0.5\<close> the
  remainder is dropped and the result sums to 0.5.
\<close>

theorem downweight_drops_remainder:
  "sure_trusted = [({Trusted}, 1)]
     \<and> total_mass sure_trusted = 1
     \<and> downweight_bba sure_trusted (1/2) = [({Trusted}, 1/2)]
     \<and> total_mass (downweight_bba sure_trusted (1/2)) = 1/2"
  by (simp add: sure_trusted_def downweight_bba_def total_mass_def FRAME_def hyp_eq_iff Let_def)

text \<open>
  The two example credentials through the loop of \<open>process\<close>: the entropy of their BBA
  is 0, the effective weight is 0.9, and 0.9 * (1 - 0.1) = 0.81 for the revoked one.
\<close>

lemma entropy_sure: "belief_entropy sure_trusted = 0"
  by (simp add: belief_entropy_def sure_trusted_def)

lemma weight_ok: "effective_weight cred_ok = 9/10" "effective_weight cred_revoked = 9/10"
  by (simp_all add: effective_weight_def cred_ok_def cred_revoked_def VC_TYPE_WEIGHT_def
      TIER_DISCOUNT_def CHAIN_DEPTH_PENALTY_def dict_get_def Let_def)

lemma vc_ok: "process_vc (5/2) (1/10) cred_ok = Inr [({Trusted}, 9/10)]"
proof -
  have f: "bba cred_ok = sure_trusted" "\<not> revoked cred_ok" by (simp_all add: cred_ok_def)
  show ?thesis
    unfolding process_vc_def Let_def f entropy_sure weight_ok
    by (simp add: f downweight_bba_def sure_trusted_def FRAME_def hyp_eq_iff)
qed

lemma vc_revoked: "process_vc (5/2) (1/10) cred_revoked = Inr [({Trusted}, 81/100)]"
proof -
  have f: "bba cred_revoked = sure_trusted" "revoked cred_revoked"
    by (simp_all add: cred_ok_def cred_revoked_def)
  show ?thesis
    unfolding process_vc_def Let_def f entropy_sure weight_ok
    by (simp add: f downweight_bba_def sure_trusted_def FRAME_def hyp_eq_iff)
qed

lemma irv_single:
  "0 \<le> m \<Longrightarrow> m \<le> 1 \<Longrightarrow>
   (let fused = [({Trusted}, m)] in
     map (\<lambda>v. clip v 0 1) [belief fused S_TR, belief fused S_UN, belief fused S_UK,
        plausibility fused S_TR, pignistic_transform fused Trusted]) = [m, 0, 0, m, m]"
  by (simp add: belief_def plausibility_def pignistic_transform_def S_TR_def S_UN_def S_UK_def clip_def)

lemma active_revoked: "process_active (5/2) (1/10) [cred_revoked] = Inr [81/100, 0, 0, 81/100, 81/100]"
  using irv_single [of "81/100"] by (simp add: process_active_def vc_revoked Let_def)

lemma active_ok: "process_active (5/2) (1/10) [cred_ok] = Inr [9/10, 0, 0, 9/10, 9/10]"
  using irv_single [of "9/10"] by (simp add: process_active_def vc_ok Let_def)

lemma combine_two:
  "chronosrep_combine [({Trusted}, 81/100)] [({Trusted}, 9/10)] = [({Trusted}, 729/1000)]"
proof -
  have k: "conflict_coeff [({Trusted}, 81/100)] [({Trusted}, 9/10)] = 0"
    by (simp add: conflict_coeff_def SUBSETS_def dict_get_def hyp_eq_iff)
  show ?thesis
    unfolding chronosrep_combine_def k
    by (simp add: combine_mass_def SUBSETS_def dict_get_def hyp_eq_iff)
qed

lemma active_both:
  "process_active (5/2) (1/10) [cred_revoked, cred_ok] = Inr [729/1000, 0, 0, 729/1000, 729/1000]"
  using irv_single [of "729/1000"] by (simp add: process_active_def vc_revoked vc_ok combine_two Let_def)

text \<open>
  Claim C9. When some supplied credential is not revoked, \<open>process\<close> returns what the
  fusion of the non-revoked credentials alone gives; when every supplied credential is
  revoked, it returns what the fusion of all supplied credentials gives; on the empty
  list it returns the zero vector of five components, normally.
\<close>

theorem process_working_set:
  "((\<exists>vc \<in> set credentials. \<not> revoked vc) \<longrightarrow>
      process eta pen agent_id credentials
        = process_active eta pen (filter (\<lambda>vc. \<not> revoked vc) credentials))
   \<and> ((\<forall>vc \<in> set credentials. revoked vc) \<longrightarrow>
      process eta pen agent_id credentials = process_active eta pen credentials)
   \<and> process eta pen agent_id [] = Inr [0, 0, 0, 0, 0]"
proof -
  have a: "(\<exists>vc \<in> set credentials. \<not> revoked vc) \<longrightarrow>
      active_credentials credentials = filter (\<lambda>vc. \<not> revoked vc) credentials"
    by (auto simp: active_credentials_def Let_def filter_empty_conv)
  have b: "(\<forall>vc \<in> set credentials. revoked vc) \<longrightarrow> active_credentials credentials = credentials"
    by (auto simp: active_credentials_def Let_def filter_empty_conv)
  have d: "process eta pen agent_id [] = Inr [0, 0, 0, 0, 0]"
    by (simp add: process_def process_active_def active_credentials_def)
  show ?thesis using a b d by (simp add: process_def)
qed

theorem process_working_set_witness:
  "revoked cred_revoked \<and> \<not> revoked cred_ok
     \<and> process (5/2) (1/10) 1 [cred_revoked] = Inr [81/100, 0, 0, 81/100, 81/100]
     \<and> process (5/2) (1/10) 1 [cred_revoked, cred_ok] = Inr [9/10, 0, 0, 9/10, 9/10]
     \<and> process_active (5/2) (1/10) [cred_revoked, cred_ok]
         = Inr [729/1000, 0, 0, 729/1000, 729/1000]
     \<and> process (5/2) (1/10) 1 [] = Inr [0, 0, 0, 0, 0]"
proof -
  have r: "revoked cred_revoked" "\<not> revoked cred_ok"
    by (simp_all add: cred_ok_def cred_revoked_def)
  have f: "filter (\<lambda>vc. \<not> revoked vc) [cred_revoked, cred_ok] = [cred_ok]"
    using r by simp
  have one: "process (5/2) (1/10) 1 [cred_revoked] = process_active (5/2) (1/10) [cred_revoked]"
    using process_working_set [of "[cred_revoked]" "5/2" "1/10" 1] r by simp
  have two: "process (5/2) (1/10) 1 [cred_revoked, cred_ok] = process_active (5/2) (1/10) [cred_ok]"
    using process_working_set [of "[cred_revoked, cred_ok]" "5/2" "1/10" 1] r f by simp
  have zero: "process (5/2) (1/10) 1 [] = Inr [0, 0, 0, 0, 0]"
    using process_working_set [of "[]" "5/2" "1/10" 1] by blast
  show ?thesis
    unfolding one two active_revoked active_ok active_both zero using r by simp
qed


section \<open>Properties of the behavioral surveillance monitor\<close>

lemma cusum_update_alarm:
  "max 0 (s_pos + z - k) > CUSUM_H \<or> max 0 (s_neg - z - k) > CUSUM_H \<Longrightarrow>
     cusum_update z s_pos s_neg k = (0, 0, True)"
  by (simp add: cusum_update_def Let_def)

lemma cusum_update_quiet:
  "\<not> (max 0 (s_pos + z - k) > CUSUM_H \<or> max 0 (s_neg - z - k) > CUSUM_H) \<Longrightarrow>
     cusum_update z s_pos s_neg k = (max 0 (s_pos + z - k), max 0 (s_neg - z - k), False)"
  by (simp add: cusum_update_def Let_def)

lemma monitor_step_alarm:
  assumes "w = deque_append ZSCORE_WIN (window s) (real_of_int outcome)"
    and "z = zscore_normalize (real_of_int outcome) w"
    and "max 0 (cusum_pos s + z - k) > CUSUM_H \<or> max 0 (cusum_neg s - z - k) > CUSUM_H"
  shows "monitor_step k (s, alarms) outcome =
           (s\<lparr>window := w, cusum_pos := 0, cusum_neg := 0,
              alarm_count := alarm_count s + 1, steps := steps s + 1\<rparr>,
            alarms @ [steps s])"
  using assms(3) unfolding monitor_step_def assms(1,2)
  by (simp add: Let_def cusum_update_alarm)

lemma monitor_step_quiet:
  assumes "w = deque_append ZSCORE_WIN (window s) (real_of_int outcome)"
    and "z = zscore_normalize (real_of_int outcome) w"
    and "\<not> (max 0 (cusum_pos s + z - k) > CUSUM_H \<or> max 0 (cusum_neg s - z - k) > CUSUM_H)"
  shows "monitor_step k (s, alarms) outcome =
           (s\<lparr>window := w, cusum_pos := max 0 (cusum_pos s + z - k),
              cusum_neg := max 0 (cusum_neg s - z - k), steps := steps s + 1\<rparr>,
            alarms)"
  using assms(3) unfolding monitor_step_def assms(1,2)
  by (simp add: Let_def cusum_update_quiet)

text \<open>
  What one observation does: the accumulators are updated with the configured slack
  \<open>k\<close>; the alarm test compares them with the module constant \<open>CUSUM_H\<close>; on an alarm
  both accumulators are reset to 0, the alarm counter goes up by one and the current
  step index is appended to the alarm list.
\<close>

lemma monitor_step_cusum:
  "monitor_step k (s, alarms) outcome =
     (let w = deque_append ZSCORE_WIN (window s) (real_of_int outcome);
          z = zscore_normalize (real_of_int outcome) w;
          pos = max 0 (cusum_pos s + z - k);
          neg = max 0 (cusum_neg s - z - k)
      in if pos > CUSUM_H \<or> neg > CUSUM_H
         then (s\<lparr>window := w, cusum_pos := 0, cusum_neg := 0,
                 alarm_count := alarm_count s + 1, steps := steps s + 1\<rparr>,
               alarms @ [steps s])
         else (s\<lparr>window := w, cusum_pos := pos, cusum_neg := neg, steps := steps s + 1\<rparr>,
               alarms))"
proof -
  define w where "w = deque_append ZSCORE_WIN (window s) (real_of_int outcome)"
  define z where "z = zscore_normalize (real_of_int outcome) w"
  show ?thesis
  proof (cases "max 0 (cusum_pos s + z - k) > CUSUM_H \<or> max 0 (cusum_neg s - z - k) > CUSUM_H")
    case True
    then show ?thesis
      using monitor_step_alarm [OF w_def z_def True] by (simp add: Let_def w_def z_def)
  next
    case False
    then show ?thesis
      using monitor_step_quiet [OF w_def z_def False] by (simp add: Let_def w_def z_def)
  qed
qed


lemma monitor_step_counts:
  assumes "monitor_step k (s, al) outcome = (s', al')"
  shows "steps s' = steps s + 1
       \<and> (alarm_count s' = alarm_count s \<and> al' = al
          \<or> alarm_count s' = alarm_count s + 1 \<and> al' = al @ [steps s])"
  using assms unfolding monitor_step_cusum Let_def
  by (auto split: if_splits)

lemma monitor_loop_counts:
  "foldl (monitor_step k) (s, al) stream = (s', al') \<Longrightarrow>
     steps s' = steps s + int (length stream)
     \<and> alarm_count s' + int (length al) = alarm_count s + int (length al')
     \<and> length al \<le> length al' \<and> length al' \<le> length al + length stream"
proof (induction stream arbitrary: s al)
  case Nil
  then show ?case by simp
next
  case (Cons x xs)
  obtain s1 al1 where step: "monitor_step k (s, al) x = (s1, al1)"
    by (cases "monitor_step k (s, al) x")
  have rest: "foldl (monitor_step k) (s1, al1) xs = (s', al')"
    using Cons.prems step by simp
  show ?case
    using Cons.IH [OF rest] monitor_step_counts [OF step] by auto
qed

lemma monitor_result:
  assumes "monitor b a stream = (b', d)"
  shows "\<exists>s0 s1. (bsm_states b a = None \<and> s0 = new_stream_state \<or> bsm_states b a = Some s0)
           \<and> bsm_states b' = (bsm_states b)(a \<mapsto> s1)
           \<and> steps s1 = steps s0 + int (length stream)
           \<and> alarm_count s1 = alarm_count s0 + int (length (d_alarm_steps d))
           \<and> length (d_alarm_steps d) \<le> length stream
           \<and> d_t d = steps s1
           \<and> d_anomaly_score d = real_of_int (alarm_count s1) / real_of_int (max (steps s1) 1)"
proof -
  obtain b0 s0 where ens: "bsm_ensure b a = (b0, s0)" by (cases "bsm_ensure b a")
  obtain s' al where loop: "foldl (monitor_step (bsm_k b0)) (s0, []) stream = (s', al)"
    by (cases "foldl (monitor_step (bsm_k b0)) (s0, []) stream")
  have s0: "bsm_states b a = None \<and> s0 = new_stream_state \<or> bsm_states b a = Some s0"
    using ens by (auto simp: bsm_ensure_def split: option.splits)
  have b0: "(bsm_states b0)(a \<mapsto> x) = (bsm_states b)(a \<mapsto> x)" for x
    using ens by (auto simp: bsm_ensure_def split: option.splits)
  define s1 where "s1 = s'\<lparr>last_entropy := shannon_entropy (outcome_distribution (window s'))\<rparr>"
  have res: "bsm_states b' = (bsm_states b)(a \<mapsto> s1)" "d_alarm_steps d = al" "d_t d = steps s1"
    "d_anomaly_score d = real_of_int (alarm_count s1) / real_of_int (max (steps s1) 1)"
    using assms by (auto simp: monitor_def ens loop Let_def s1_def b0)
  have cnt: "steps s1 = steps s0 + int (length stream)"
    "alarm_count s1 = alarm_count s0 + int (length al)" "length al \<le> length stream"
    using monitor_loop_counts [OF loop] by (simp_all add: s1_def)
  show ?thesis using s0 res cnt by blast
qed

lemma monitor_counts_ok:
  assumes inv: "\<forall>a' s. bsm_states b a' = Some s \<longrightarrow> counts_ok s"
    and mon: "monitor b a stream = (b', d)"
  shows "\<forall>a' s. bsm_states b' a' = Some s \<longrightarrow> counts_ok s"
proof -
  obtain s0 s1 where r: "bsm_states b a = None \<and> s0 = new_stream_state \<or> bsm_states b a = Some s0"
      "bsm_states b' = (bsm_states b)(a \<mapsto> s1)"
      "steps s1 = steps s0 + int (length stream)"
      "alarm_count s1 = alarm_count s0 + int (length (d_alarm_steps d))"
      "length (d_alarm_steps d) \<le> length stream"
    using monitor_result [OF mon] by blast
  have "counts_ok s0"
    using r(1) inv by (auto simp: counts_ok_def new_stream_state_def)
  then have "counts_ok s1"
    using r(3,4,5) by (simp add: counts_ok_def)
  then show ?thesis
    using inv r(2) by simp
qed

lemma monitor_calls_counts_ok:
  "\<forall>a' s. bsm_states b a' = Some s \<longrightarrow> counts_ok s \<Longrightarrow>
     \<forall>a' s. bsm_states (monitor_calls b calls) a' = Some s \<longrightarrow> counts_ok s"
proof (induction calls arbitrary: b)
  case Nil
  then show ?case by (simp add: monitor_calls_def)
next
  case (Cons c cs)
  obtain a stream where c: "c = (a, stream)" by (cases c)
  obtain b1 d where m: "monitor b a stream = (b1, d)" by (cases "monitor b a stream")
  have "\<forall>a' s. bsm_states b1 a' = Some s \<longrightarrow> counts_ok s"
    by (rule monitor_counts_ok [OF Cons.prems m])
  from Cons.IH [OF this] show ?case
    by (simp add: monitor_calls_def c m)
qed

lemma anomaly_score_unit:
  assumes "\<forall>a' s. bsm_states b a' = Some s \<longrightarrow> counts_ok s"
  shows "0 \<le> anomaly_score b a \<and> anomaly_score b a \<le> 1"
proof (cases "bsm_states b a")
  case None
  then show ?thesis by (simp add: anomaly_score_def)
next
  case (Some s)
  then have "counts_ok s" using assms by blast
  then show ?thesis
    using Some by (auto simp: anomaly_score_def counts_ok_def divide_le_eq_1)
qed

text \<open>
  Claim C10. On every instance reached from a fresh one by \<open>monitor\<close> calls, and after
  one more call: each agent's alarm count lies between 0 and its step counter, the call
  records at most one alarm per outcome, and both anomaly scores lie in \<open>[0, 1]\<close>.
\<close>

theorem alarm_count_bounded:
  assumes "b = monitor_calls (bsm_init h k) calls" and "monitor b a stream = (b', d)"
  shows "(\<forall>a' s. bsm_states b' a' = Some s \<longrightarrow> 0 \<le> alarm_count s \<and> alarm_count s \<le> steps s)
       \<and> length (d_alarm_steps d) \<le> length stream
       \<and> 0 \<le> d_anomaly_score d \<and> d_anomaly_score d \<le> 1
       \<and> 0 \<le> anomaly_score b a' \<and> anomaly_score b a' \<le> 1
       \<and> 0 \<le> anomaly_score b' a' \<and> anomaly_score b' a' \<le> 1"
proof -
  have init: "\<forall>a' s. bsm_states (bsm_init h k) a' = Some s \<longrightarrow> counts_ok s"
    by (simp add: bsm_init_def)
  have invb: "\<forall>a' s. bsm_states b a' = Some s \<longrightarrow> counts_ok s"
    unfolding assms(1) by (rule monitor_calls_counts_ok [OF init])
  have invb': "\<forall>a' s. bsm_states b' a' = Some s \<longrightarrow> counts_ok s"
    by (rule monitor_counts_ok [OF invb assms(2)])
  obtain s0 s1 where r: "bsm_states b' = (bsm_states b)(a \<mapsto> s1)"
      "length (d_alarm_steps d) \<le> length stream"
      "d_anomaly_score d = real_of_int (alarm_count s1) / real_of_int (max (steps s1) 1)"
    using monitor_result [OF assms(2)] by blast
  have "bsm_states b' a = Some s1" using r(1) by simp
  then have "counts_ok s1" using invb' by blast
  then have score: "0 \<le> d_anomaly_score d \<and> d_anomaly_score d \<le> 1"
    unfolding r(3) by (auto simp: counts_ok_def divide_le_eq_1)
  show ?thesis
    using invb' r(2) score anomaly_score_unit [OF invb] anomaly_score_unit [OF invb']
    by (simp add: counts_ok_def)
qed

lemma zscore_zeros: "zscore_normalize 0 (replicate n 0) = 0"
  by (simp add: zscore_normalize_def np_mean_def np_std_def ENTROPY_EPS_def sum_list_replicate Let_def)

lemma quiet_zeros:
  assumes "0 \<le> k"
  shows "m + n \<le> 30 \<Longrightarrow>
     foldl (monitor_step k)
        (\<lparr>window = replicate m 0, cusum_pos = 0, cusum_neg = 0, alarm_count = a,
          last_entropy = e, steps = t\<rparr>, al)
        (replicate n 0)
     = (\<lparr>window = replicate (m + n) 0, cusum_pos = 0, cusum_neg = 0, alarm_count = a,
         last_entropy = e, steps = t + int n\<rparr>, al)"
proof (induction n arbitrary: m t)
  case 0
  then show ?case by simp
next
  case (Suc n)
  have w: "deque_append ZSCORE_WIN (replicate m 0) (0::real) = replicate (Suc m) 0"
    using Suc.prems by (simp add: deque_append_def ZSCORE_WIN_def replicate_append_same)
  have step: "monitor_step k
        (\<lparr>window = replicate m 0, cusum_pos = 0, cusum_neg = 0, alarm_count = a,
          last_entropy = e, steps = t\<rparr>, al) 0
      = (\<lparr>window = replicate (Suc m) 0, cusum_pos = 0, cusum_neg = 0, alarm_count = a,
          last_entropy = e, steps = t + 1\<rparr>, al)"
    using assms zscore_zeros [of "Suc m"]
    by (simp add: monitor_step_cusum w CUSUM_H_def del: replicate_Suc)
  have "Suc m + n \<le> 30" using Suc.prems by simp
  from Suc.IH [OF this, of "t + 1"]
  have rest: "foldl (monitor_step k)
        (\<lparr>window = replicate (Suc m) 0, cusum_pos = 0, cusum_neg = 0, alarm_count = a,
          last_entropy = e, steps = t + 1\<rparr>, al) (replicate n 0)
      = (\<lparr>window = replicate (m + Suc n) 0, cusum_pos = 0, cusum_neg = 0, alarm_count = a,
          last_entropy = e, steps = t + int (Suc n)\<rparr>, al)"
    by (simp add: add.assoc del: replicate_Suc)
  have "replicate (Suc n) (0::int) = 0 # replicate n 0" by simp
  then show ?case
    by (simp only: foldl_Cons step rest)
qed

lemma sqrt_25_676: "sqrt (25/676) = 5/26"
  by (rule real_sqrt_unique) (simp_all add: power2_eq_square)

lemma zscore_spike: "zscore_normalize 1 (replicate 25 0 @ [1]) = 5"
  by (simp add: zscore_normalize_def np_mean_def np_std_def ENTROPY_EPS_def sum_list_replicate
      power2_eq_square sqrt_25_676 Let_def)

lemma spike_loop:
  "foldl (monitor_step (1/2)) (new_stream_state, []) (replicate 25 0 @ [1])
     = (\<lparr>window = replicate 25 0 @ [1], cusum_pos = 0, cusum_neg = 0, alarm_count = 1,
         last_entropy = 0, steps = 26\<rparr>, [25])"
proof -
  have q: "foldl (monitor_step (1/2)) (new_stream_state, []) (replicate 25 0)
     = (\<lparr>window = replicate 25 0, cusum_pos = 0, cusum_neg = 0, alarm_count = 0,
         last_entropy = 0, steps = 25\<rparr>, [])"
    using quiet_zeros [of "1/2" 0 25 0 0 0 "[]"] by (simp add: new_stream_state_def)
  have w: "deque_append ZSCORE_WIN (replicate 25 0) (1::real) = replicate 25 0 @ [1]"
    by (simp add: deque_append_def ZSCORE_WIN_def)
  show ?thesis
    unfolding foldl_append q
    by (simp add: monitor_step_cusum w zscore_spike CUSUM_H_def)
qed

lemma monitor_fresh:
  assumes "foldl (monitor_step k) (new_stream_state, []) stream = (s, al)"
  shows "snd (monitor (bsm_init h k) a stream)
       = \<lparr>d_agent_id = a,
          d_mean_outcome = (if length (window s) > 0 then np_mean (window s) else 1/2),
          d_entropy = shannon_entropy (outcome_distribution (window s)),
          d_anomaly_score = real_of_int (alarm_count s) / real_of_int (max (steps s) 1),
          d_alarm_steps = al, d_cusum_pos = cusum_pos s, d_cusum_neg = cusum_neg s,
          d_t = steps s\<rparr>"
    and "bsm_states (fst (monitor (bsm_init h k) a stream)) a
       = Some (s\<lparr>last_entropy := shannon_entropy (outcome_distribution (window s))\<rparr>)"
    and "bsm_h (fst (monitor (bsm_init h k) a stream)) = h"
  using assms by (simp_all add: monitor_def bsm_ensure_def bsm_init_def Let_def)

lemma sqrt_4_25: "sqrt (4/25) = 2/5"
  by (rule real_sqrt_unique) (simp_all add: power2_eq_square)

lemma zscore_small_spike: "zscore_normalize 1 (replicate 4 0 @ [1]) = 2"
  by (simp add: zscore_normalize_def np_mean_def np_std_def ENTROPY_EPS_def sum_list_replicate
      power2_eq_square sqrt_4_25 Let_def)

lemma small_spike_loop:
  "foldl (monitor_step (1/2)) (new_stream_state, []) (replicate 4 0 @ [1])
     = (\<lparr>window = replicate 4 0 @ [1], cusum_pos = 3/2, cusum_neg = 0, alarm_count = 0,
         last_entropy = 0, steps = 5\<rparr>, [])"
proof -
  have q: "foldl (monitor_step (1/2)) (new_stream_state, []) (replicate 4 0)
     = (\<lparr>window = replicate 4 0, cusum_pos = 0, cusum_neg = 0, alarm_count = 0,
         last_entropy = 0, steps = 4\<rparr>, [])"
    using quiet_zeros [of "1/2" 0 4 0 0 0 "[]"] by (simp add: new_stream_state_def)
  have w: "deque_append ZSCORE_WIN (replicate 4 0) (1::real) = replicate 4 0 @ [1]"
    by (simp add: deque_append_def ZSCORE_WIN_def)
  show ?thesis
    unfolding foldl_append q
    by (simp add: monitor_step_cusum w zscore_small_spike CUSUM_H_def)
qed

text \<open>
  Claim C7. The control limit given to the constructor is stored and never read: the
  alarm test uses the constant 4.0. On an instance built with \<open>cusum_h = 1.0\<close> the stream
  \<open>0, 0, 0, 0, 1\<close> drives the positive accumulator to 1.5, above the configured limit,
  and no alarm is raised, nothing is reset and no step is recorded.
\<close>

theorem monitor_ignores_configured_limit:
  "bsm_h (bsm_init 1 (1/2)) = 1
     \<and> d_cusum_pos (snd (monitor (bsm_init 1 (1/2)) 7 (replicate 4 0 @ [1]))) = 3/2
     \<and> d_alarm_steps (snd (monitor (bsm_init 1 (1/2)) 7 (replicate 4 0 @ [1]))) = []
     \<and> d_anomaly_score (snd (monitor (bsm_init 1 (1/2)) 7 (replicate 4 0 @ [1]))) = 0"
proof -
  have h: "bsm_h (bsm_init 1 (1/2)) = 1"
    by (simp add: bsm_init_def)
  show ?thesis
    unfolding h by (simp add: monitor_fresh(1) [OF small_spike_loop])
qed

text \<open>
  With the default limit the alarm path is reached from a fresh instance: 25 zeros and
  then a one give z = 5, the positive accumulator 4.5 exceeds 4.0, both accumulators are
  reset and step 25 is recorded.
\<close>

lemma monitor_default_alarm:
  "d_alarm_steps (snd (monitor (bsm_init 4 (1/2)) 7 (replicate 25 0 @ [1]))) = [25]
     \<and> d_cusum_pos (snd (monitor (bsm_init 4 (1/2)) 7 (replicate 25 0 @ [1]))) = 0
     \<and> d_cusum_neg (snd (monitor (bsm_init 4 (1/2)) 7 (replicate 25 0 @ [1]))) = 0
     \<and> d_anomaly_score (snd (monitor (bsm_init 4 (1/2)) 7 (replicate 25 0 @ [1]))) = 1/26
     \<and> d_t (snd (monitor (bsm_init 4 (1/2)) 7 (replicate 25 0 @ [1]))) = 26"
  by (simp add: monitor_fresh(1) [OF spike_loop])

theorem alarm_count_bounded_witness:
  "d_alarm_steps (snd (monitor (monitor_calls (bsm_init 4 (1/2)) []) 7 (replicate 25 0 @ [1]))) = [25]
     \<and> d_anomaly_score (snd (monitor (monitor_calls (bsm_init 4 (1/2)) []) 7 (replicate 25 0 @ [1]))) = 1/26
     \<and> map_option alarm_count
          (bsm_states (fst (monitor (monitor_calls (bsm_init 4 (1/2)) []) 7 (replicate 25 0 @ [1]))) 7) = Some 1
     \<and> map_option steps
          (bsm_states (fst (monitor (monitor_calls (bsm_init 4 (1/2)) []) 7 (replicate 25 0 @ [1]))) 7) = Some 26
     \<and> 0 \<le> anomaly_score (fst (monitor (monitor_calls (bsm_init 4 (1/2)) []) 7 (replicate 25 0 @ [1]))) 7
     \<and> anomaly_score (fst (monitor (monitor_calls (bsm_init 4 (1/2)) []) 7 (replicate 25 0 @ [1]))) 7 \<le> 1"
proof -
  have c: "monitor_calls (bsm_init 4 (1/2)) [] = bsm_init 4 (1/2)"
    by (simp add: monitor_calls_def)
  have m: "monitor (monitor_calls (bsm_init 4 (1/2)) []) 7 (replicate 25 0 @ [1])
      = (fst (monitor (bsm_init 4 (1/2)) 7 (replicate 25 0 @ [1])),
         snd (monitor (bsm_init 4 (1/2)) 7 (replicate 25 0 @ [1])))"
    by (simp add: c)
  show ?thesis
    using alarm_count_bounded [OF refl m, of 7]
    by (simp add: c monitor_fresh(1,2) [OF spike_loop])
qed

section \<open>Properties of the interaction and community engine\<close>

text \<open>
  What the code computes for two actors of one suspect community: the penalty uses the
  module constants \<open>BETA\<close> and \<open>GAMMA\<close>, whatever the instance was constructed with.
\<close>

lemma penalized_evidence_suspect:
  assumes "map_of (ite_partition st) endorser_id = Some c"
    and "map_of (ite_partition st) target_id = Some c"
    and "map_of (ite_comm_stats st) c = Some stats"
    and "is_suspect stats"
  shows "penalized_evidence st endorser_id target_id raw_outcome
       = max 0 (1 - (BETA * fast_jaccard (nbrs st endorser_id \<union> {endorser_id})
                                         (nbrs st target_id \<union> {target_id})
                     + GAMMA * din stats)) * real_of_int raw_outcome"
proof -
  have "ite_partition st \<noteq> []" using assms(1) by auto
  then show ?thesis
    using assms by (simp add: penalized_evidence_def structural_penalty_def Let_def)
qed

lemma penalized_evidence_default:
  assumes "map_of (ite_partition st) endorser_id = Some c"
    and "map_of (ite_partition st) target_id = Some c"
    and "map_of (ite_comm_stats st) c = Some stats"
    and "is_suspect stats"
    and "ite_beta st = BETA" and "ite_gamma st = GAMMA"
  shows "penalized_evidence st endorser_id target_id raw_outcome
       = configured_penalty st (fast_jaccard (nbrs st endorser_id \<union> {endorser_id})
                                             (nbrs st target_id \<union> {target_id}))
                               (din stats) * real_of_int raw_outcome"
  using penalized_evidence_suspect [OF assms(1-4)] assms(5,6)
  by (simp add: configured_penalty_def)

lemma ticks_Suc: "ticks bp (Suc n) st = (case ticks bp n st of Inl e \<Rightarrow> Inl e | Inr s \<Rightarrow> tick bp s)"
  by (simp add: ticks_def)

lemma ticks_quiet:
  "0 \<le> ite_step st \<Longrightarrow> ite_step st + int n < recompute_interval st \<Longrightarrow>
     ticks bp n st = Inr (st\<lparr>ite_step := ite_step st + int n\<rparr>)"
proof (induction n)
  case 0
  then show ?case by (simp add: ticks_def)
next
  case (Suc n)
  then have ih: "ticks bp n st = Inr (st\<lparr>ite_step := ite_step st + int n\<rparr>)" by simp
  have "(ite_step st + int n + 1) mod recompute_interval st = ite_step st + int n + 1"
    using Suc.prems by (simp add: mod_pos_pos_trivial)
  then show ?case
    using Suc.prems by (simp add: ticks_Suc ih tick_def Let_def add.assoc)
qed

lemma pair_session_fields:
  "graph_nodes pair_session = [0, 1]"
  "graph_edges pair_session = [((0, 1), (1, 1)), ((1, 0), (1, 1))]"
  "nbrs pair_session 0 = {1}" "nbrs pair_session 1 = {0}"
  "ite_beta pair_session = 0" "ite_gamma pair_session = 0"
  "ite_step pair_session = 0" "recompute_interval pair_session = 10"
  by (simp_all add: pair_session_def force_interaction_def add_edge_def ite_ensure_def
      ite_init_def add_node_def Let_def)

lemma pair_recompute:
  "recompute pair_partition (pair_session\<lparr>ite_step := 10\<rparr>) = pair_suspect_state"
  by (simp add: recompute_def pair_partition_def pair_session_fields pair_suspect_state_def
      first_seen_def Let_def insert_commute)

lemma pair_ticks: "ticks pair_partition 10 pair_session = Inr pair_suspect_state"
proof -
  have nine: "ticks pair_partition 9 pair_session = Inr (pair_session\<lparr>ite_step := 9\<rparr>)"
    using ticks_quiet [of pair_session 9 pair_partition] by (simp add: pair_session_fields)
  have "ticks pair_partition (Suc 9) pair_session = Inr pair_suspect_state"
    unfolding ticks_Suc nine
    by (simp add: tick_def pair_session_fields pair_recompute)
  then show ?thesis by simp
qed

text \<open>
  Claim C4. An instance constructed with \<open>beta = 0\<close> and \<open>gamma = 0\<close>, after the two forced
  interactions and ten ticks: actors 0 and 1 are in the same suspect community of density
  1 and their neighbour sets (each with itself) have Jaccard index 1. The configured
  weight is \<open>max(0, 1 - (0 * 1 + 0 * 1)) = 1\<close>, so the claim gives \<open>1 * 1 = 1\<close>; the code
  returns 0, the weight of the default coefficients 0.5 and 0.5.
\<close>

theorem penalized_evidence_ignores_configuration:
  "ticks pair_partition 10 pair_session = Inr pair_suspect_state
     \<and> ite_beta pair_suspect_state = 0 \<and> ite_gamma pair_suspect_state = 0
     \<and> map_of (ite_partition pair_suspect_state) 0 = Some 0
     \<and> map_of (ite_partition pair_suspect_state) 1 = Some 0
     \<and> map_option is_suspect (map_of (ite_comm_stats pair_suspect_state) 0) = Some True
     \<and> map_option din (map_of (ite_comm_stats pair_suspect_state) 0) = Some 1
     \<and> fast_jaccard (nbrs pair_suspect_state 0 \<union> {0}) (nbrs pair_suspect_state 1 \<union> {1}) = 1
     \<and> configured_penalty pair_suspect_state 1 1 * real_of_int 1 = 1
     \<and> penalized_evidence pair_suspect_state 0 1 1 = 0"
proof -
  have n: "nbrs pair_suspect_state 0 = {1}" "nbrs pair_suspect_state 1 = {0}"
    by (simp_all add: pair_suspect_state_def pair_session_fields)
  have j: "fast_jaccard (nbrs pair_suspect_state 0 \<union> {0}) (nbrs pair_suspect_state 1 \<union> {1}) = 1"
    by (simp add: n fast_jaccard_def Let_def insert_commute)
  have s: "is_suspect \<lparr>members = {0, 1}, din = 1, ext_ratio = 0\<rparr>"
    by (simp add: is_suspect_def SUSPECT_DIN_def SUSPECT_EXTER_def)
  have e: "penalized_evidence pair_suspect_state 0 1 1
       = max 0 (1 - (BETA * fast_jaccard (nbrs pair_suspect_state 0 \<union> {0})
                                         (nbrs pair_suspect_state 1 \<union> {1})
                     + GAMMA * din \<lparr>members = {0, 1}, din = 1, ext_ratio = 0\<rparr>)) * real_of_int 1"
    by (rule penalized_evidence_suspect [where c = 0]) (simp_all add: pair_suspect_state_def s)
  have p: "penalized_evidence pair_suspect_state 0 1 1 = 0"
    unfolding e j by (simp add: BETA_def GAMMA_def)
  show ?thesis
    using pair_ticks j s p
    by (simp add: pair_suspect_state_def configured_penalty_def pair_session_fields)
qed

section \<open>Properties of the volatility-adjusted dynamics module\<close>

lemma vadm_step_unfold:
  "vadm_step ops v agent_id (irv0 # rest) r_static =
     (let mu = clip irv0 X_LO X_HI;
          s = vadm_state v agent_id mu;
          theta = update_theta (st_theta s) \<bar>r_static - st_x s\<bar> (v_alpha v) (v_dt v);
          z = fst (np_standard_normal ops (v_rng v));
          j = em_jump ops (snd (np_standard_normal ops (v_rng v))) (st_x s) mu (v_jump_scale v)
                (step_gamma v agent_id mu r_static);
          x = clip (st_x s + theta * (mu - st_x s) * v_dt v + v_sigma v * z * sqrt (v_dt v) + fst j)
                X_LO X_HI;
          h = deque_append (v_window v) (st_history s) x
      in Inr ((x, if length h > 1 then np_std h else 0),
              v\<lparr>v_rng := snd j,
                v_states := (v_states v)(agent_id \<mapsto>
                   s\<lparr>st_theta := theta, st_x := x, st_history := h, st_t := st_t s + 1\<rparr>)\<rparr>))"
  by (simp add: vadm_step_def euler_maruyama_def step_gamma_def Let_def split: prod.splits)

lemma em_jump_sign:
  assumes "gamma > GAMMA_THRESHOLD"
  shows "fst (em_jump ops rng x mu jump_scale gamma)
       = (if x > mu then - \<bar>fst (np_normal ops rng 0 jump_scale)\<bar>
          else \<bar>fst (np_normal ops rng 0 jump_scale)\<bar>)"
  using assms by (simp add: em_jump_def Let_def split: prod.splits)

lemma em_jump_none:
  assumes "\<not> gamma > GAMMA_THRESHOLD"
  shows "em_jump ops rng x mu jump_scale gamma = (0, rng)"
  using assms by (simp add: em_jump_def)

text \<open>
  Claim C1, as amended. In every call of \<open>step\<close> whose surprise ratio exceeds the
  threshold 3.0, the new reputation is the clipped sum of the old one, the drift, the
  diffusion and a jump; the jump is the absolute value of the draw
  \<^verbatim>\<open>rng.normal(0.0, jump_scale)\<close>, times \<open>-1\<close> when \<open>x\<close> is above \<open>mu\<close> and times \<open>+1\<close>
  otherwise: it pushes \<open>x\<close> toward \<open>mu\<close>.
\<close>

theorem jump_pushes_toward_target:
  assumes "step_gamma v agent_id (clip irv0 X_LO X_HI) r_static > GAMMA_THRESHOLD"
  shows "(\<exists>vol v'.
            vadm_step ops v agent_id (irv0 # rest) r_static
              = Inr ((clip (st_x (vadm_state v agent_id (clip irv0 X_LO X_HI))
                            + update_theta (st_theta (vadm_state v agent_id (clip irv0 X_LO X_HI)))
                                \<bar>r_static - st_x (vadm_state v agent_id (clip irv0 X_LO X_HI))\<bar>
                                (v_alpha v) (v_dt v)
                              * (clip irv0 X_LO X_HI - st_x (vadm_state v agent_id (clip irv0 X_LO X_HI)))
                              * v_dt v
                            + v_sigma v * fst (np_standard_normal ops (v_rng v)) * sqrt (v_dt v)
                            + step_jump ops v agent_id (clip irv0 X_LO X_HI) r_static) X_LO X_HI,
                      vol), v'))
       \<and> step_jump ops v agent_id (clip irv0 X_LO X_HI) r_static
           = (if st_x (vadm_state v agent_id (clip irv0 X_LO X_HI)) > clip irv0 X_LO X_HI then - 1 else 1)
             * \<bar>fst (np_normal ops (snd (np_standard_normal ops (v_rng v))) 0 (v_jump_scale v))\<bar>
       \<and> (st_x (vadm_state v agent_id (clip irv0 X_LO X_HI)) > clip irv0 X_LO X_HI
           \<longrightarrow> step_jump ops v agent_id (clip irv0 X_LO X_HI) r_static \<le> 0)
       \<and> (st_x (vadm_state v agent_id (clip irv0 X_LO X_HI)) \<le> clip irv0 X_LO X_HI
           \<longrightarrow> step_jump ops v agent_id (clip irv0 X_LO X_HI) r_static \<ge> 0)"
proof -
  let ?mu = "clip irv0 X_LO X_HI"
  have r: "\<exists>vol v'.
            vadm_step ops v agent_id (irv0 # rest) r_static
              = Inr ((clip (st_x (vadm_state v agent_id ?mu)
                            + update_theta (st_theta (vadm_state v agent_id ?mu))
                                \<bar>r_static - st_x (vadm_state v agent_id ?mu)\<bar> (v_alpha v) (v_dt v)
                              * (?mu - st_x (vadm_state v agent_id ?mu)) * v_dt v
                            + v_sigma v * fst (np_standard_normal ops (v_rng v)) * sqrt (v_dt v)
                            + step_jump ops v agent_id ?mu r_static) X_LO X_HI,
                      vol), v')"
    by (simp add: vadm_step_unfold Let_def step_jump_def)
  have j: "step_jump ops v agent_id ?mu r_static
           = (if st_x (vadm_state v agent_id ?mu) > ?mu then - 1 else 1)
             * \<bar>fst (np_normal ops (snd (np_standard_normal ops (v_rng v))) 0 (v_jump_scale v))\<bar>"
    using assms by (simp add: step_jump_def em_jump_sign)
  have neg: "st_x (vadm_state v agent_id ?mu) > ?mu \<longrightarrow> step_jump ops v agent_id ?mu r_static \<le> 0"
    unfolding j by simp
  have pos: "st_x (vadm_state v agent_id ?mu) \<le> ?mu \<longrightarrow> step_jump ops v agent_id ?mu r_static \<ge> 0"
    unfolding j by simp
  show ?thesis using r j neg pos by blast
qed

lemma settled_state:
  "vadm_state settled_vadm 0 mu = \<lparr>st_x = 8/10, st_theta = 57/200, st_history = [8/10], st_t = 1\<rparr>"
  by (simp add: vadm_state_def settled_vadm_def)

lemma settled_fields:
  "v_rng settled_vadm = [0, 1]" "v_jump_scale settled_vadm = 35/100" "v_sigma settled_vadm = 3/100"
  "v_dt settled_vadm = 1" "v_alpha settled_vadm = 1/20" "v_window settled_vadm = 20"
  by (simp_all add: settled_vadm_def)

lemma clip_small: "clip (1/20) X_LO X_HI = 1/20"
  by (simp add: clip_def X_LO_def X_HI_def)

lemma settled_gamma: "step_gamma settled_vadm 0 (1/20) 0 > GAMMA_THRESHOLD"
proof -
  have "(1/2)\<^sup>2 < (57/100 :: real)" by (simp add: power2_eq_square)
  then have "1/2 < sqrt (57/100)" by (rule real_less_rsqrt)
  then have m: "1/2 < max (sqrt (57/100)) (1 / 10 ^ 8)" by simp
  define m where "m = max (sqrt (57/100)) (1 / 10 ^ 8 :: real)"
  have mm: "1/2 < m" using m by (simp add: m_def)
  have nf: "noise_floor (3/100) (57/200) = (3/100) / m"
    by (simp add: noise_floor_def m_def)
  have pos: "0 < (3/100) / m" using mm by simp
  have "step_gamma settled_vadm 0 (1/20) 0 = (8/10) / ((3/100) / m)"
    using pos by (simp add: step_gamma_def settled_state settled_fields gamma_ratio_def nf Let_def)
  also have "\<dots> = (80/3) * m" by simp
  also have "\<dots> > 3" using mm by simp
  finally show ?thesis by (simp add: GAMMA_THRESHOLD_def)
qed

lemma settled_jump: "step_jump scripted_np settled_vadm 0 (1/20) 0 = - (35/100)"
proof -
  have "step_jump scripted_np settled_vadm 0 (1/20) 0
      = fst (em_jump scripted_np [1] (8/10) (1/20) (35/100) (step_gamma settled_vadm 0 (1/20) 0))"
    by (simp add: step_jump_def settled_state settled_fields scripted_np_def)
  also have "\<dots> = - (35/100)"
    using settled_gamma by (simp add: em_jump_sign scripted_np_def)
  finally show ?thesis .
qed

text \<open>
  Claim C1, as stated, fails. Actor 0 has reputation 0.8; the next call has target
  \<open>mu = 0.05\<close> and static score 0. The surprise ratio exceeds 3.0, \<open>x - mu\<close> is positive,
  and with the scripted normal draw the jump is \<open>-0.35\<close>: negative, toward \<open>mu\<close>, not of
  the sign of \<open>x - mu\<close>.
\<close>

theorem jump_sign_counterexample:
  "step_gamma settled_vadm 0 (clip (1/20) X_LO X_HI) 0 > GAMMA_THRESHOLD
     \<and> st_x (vadm_state settled_vadm 0 (clip (1/20) X_LO X_HI)) - clip (1/20) X_LO X_HI > 0
     \<and> step_jump scripted_np settled_vadm 0 (clip (1/20) X_LO X_HI) 0 < 0"
  unfolding clip_small using settled_gamma by (simp add: settled_state settled_jump)

theorem jump_pushes_toward_target_witness:
  "step_gamma settled_vadm 0 (clip (1/20) X_LO X_HI) 0 > GAMMA_THRESHOLD
     \<and> st_x (vadm_state settled_vadm 0 (clip (1/20) X_LO X_HI)) > clip (1/20) X_LO X_HI
     \<and> step_jump scripted_np settled_vadm 0 (clip (1/20) X_LO X_HI) 0 = - (35/100)
     \<and> step_jump scripted_np settled_vadm 0 (clip (1/20) X_LO X_HI) 0 \<le> 0"
proof -
  have g: "step_gamma settled_vadm 0 (clip (1/20) X_LO X_HI) 0 > GAMMA_THRESHOLD"
    unfolding clip_small by (rule settled_gamma)
  have x: "st_x (vadm_state settled_vadm 0 (clip (1/20) X_LO X_HI)) > clip (1/20) X_LO X_HI"
    unfolding clip_small by (simp add: settled_state)
  show ?thesis
    using g x jump_pushes_toward_target [OF g, of scripted_np "[]"]
    unfolding clip_small by (simp add: settled_jump)
qed

text \<open>The state of the counterexample is reached by one call on a fresh instance.\<close>

lemma settled_reached:
  "vadm_step scripted_np fresh_vadm 0 [4/5, 1/50, 1/20, 41/50, 4/5] (4/5)
     = Inr ((4/5, 0), settled_vadm)"
proof -
  have c: "clip (4/5) X_LO X_HI = 4/5"
    by (simp add: clip_def X_LO_def X_HI_def)
  have s: "vadm_state fresh_vadm 0 (4/5) = \<lparr>st_x = 4/5, st_theta = 3/10, st_history = [], st_t = 0\<rparr>"
    by (simp add: vadm_state_def vadm_init_def fresh_vadm_def c)
  have g: "step_gamma fresh_vadm 0 (4/5) (4/5) = 0"
    by (simp add: step_gamma_def s gamma_ratio_def Let_def)
  have j: "em_jump scripted_np [0, 1] (4/5) (4/5) (7/20) 0 = (0, [0, 1])"
    by (simp add: em_jump_def GAMMA_THRESHOLD_def)
  have t: "update_theta (3/10) 0 (1/20) 1 = 57/200"
    by (simp add: update_theta_def clip_def)
  have f: "v_rng fresh_vadm = [0, 0, 1]" "v_dt fresh_vadm = 1" "v_alpha fresh_vadm = 1/20"
    "v_sigma fresh_vadm = 3/100" "v_jump_scale fresh_vadm = 7/20" "v_window fresh_vadm = 20"
    by (simp_all add: vadm_init_def fresh_vadm_def)
  have n: "np_standard_normal scripted_np [0, 0, 1] = (0, [0, 1])"
    by (simp add: scripted_np_def)
  have u: "fresh_vadm\<lparr>v_rng := [0, 1],
              v_states := (v_states fresh_vadm)(0 \<mapsto>
                 \<lparr>st_x = 4/5, st_theta = 57/200, st_history = [4/5], st_t = 1\<rparr>)\<rparr> = settled_vadm"
    by (simp add: fresh_vadm_def vadm_init_def settled_vadm_def)
  show ?thesis
    by (simp add: vadm_step_unfold Let_def c s g f n j t deque_append_def u)
qed

section \<open>Properties of the agent lifecycle\<close>

lemma isolated_as_agents:
  "agents w' = agents w \<Longrightarrow> isolated_as w' i r v = isolated_as w i r v"
  by (simp add: isolated_as_def)

lemma get_agent_isolated:
  assumes "isolated_as w i r v"
  shows "\<exists>a. get_agent w i = Some a \<and> isolated a"
proof -
  obtain b where b: "b \<in> set (agents w)" "unique_id b = i"
    using assms by (auto simp: isolated_as_def)
  then have "find (\<lambda>a. unique_id a = i) (agents w) \<noteq> None"
    by (auto simp: find_None_iff)
  then obtain a where a: "find (\<lambda>a. unique_id a = i) (agents w) = Some a" by auto
  then have "a \<in> set (agents w)" "unique_id a = i"
    by (auto simp: find_Some_iff)
  then have "isolated a" using assms by (auto simp: isolated_as_def)
  then show ?thesis using a by (simp add: get_agent_def)
qed

lemma get_agent_id: "get_agent w j = Some a \<Longrightarrow> unique_id a = j \<and> a \<in> set (agents w)"
  by (auto simp: get_agent_def find_Some_iff)

lemma agent_step_isolated:
  assumes "isolated_as w i r v"
  shows "agent_step ops w i = Inr w"
  using get_agent_isolated [OF assms] by (auto simp: agent_step_def)

lemma all_ids_excludes:
  assumes "isolated_as w i r v"
  shows "i \<notin> set (all_ids w)"
  using assms by (auto simp: all_ids_def isolated_as_def)

lemma put_agent_ids: "unique_id ` set (put_agent as a) = unique_id ` set as"
proof -
  have "map unique_id (put_agent as a) = map unique_id as"
    by (induction as) (simp_all add: put_agent_def)
  then have "set (map unique_id (put_agent as a)) = set (map unique_id as)" by simp
  then show ?thesis by simp
qed

lemma isolated_as_put:
  assumes "isolated_as w i r v" and "unique_id a \<noteq> i" and "agents w' = put_agent (agents w) a"
  shows "isolated_as w' i r v"
proof -
  have "\<forall>b \<in> set (put_agent (agents w) a). unique_id b = i \<longrightarrow> b \<in> set (agents w)"
    using assms(2) by (auto simp: put_agent_def split: if_splits)
  then show ?thesis
    using assms(1) unfolding isolated_as_def assms(3) put_agent_ids by blast
qed

lemma bind_err_Inr:
  "(bind_err m f = Inr y) = (\<exists>x. m = Inr x \<and> f x = Inr y)"
  by (cases m) (simp_all add: bind_err_def)

lemma finish_step_shape:
  fixes w :: "'m world"
  shows "tau (finish_step w a irv' ev rep vol eng) = tau w
       \<and> (\<exists>a'. unique_id a' = unique_id a \<and> (reputation a' < tau w \<longrightarrow> isolated a')
                \<and> reputation a' = rep \<and> volatility a' = vol
                \<and> agents (finish_step w a irv' ev rep vol eng) = put_agent (agents w) a')"
proof (cases "rep < tau w")
  case True
  then show ?thesis
    by (auto simp: finish_step_def Let_def
        intro!: exI [of _ "a\<lparr>irv := irv', evidence := ev, reputation := rep, volatility := vol, isolated := True\<rparr>"])
next
  case False
  then show ?thesis
    by (auto simp: finish_step_def Let_def
        intro!: exI [of _ "a\<lparr>irv := irv', evidence := ev, reputation := rep, volatility := vol\<rparr>"])
qed

lemma ends_in_bind: "(\<And>x. ends_in Q (f x)) \<Longrightarrow> ends_in Q (bind_err m f)"
  by (cases m) (simp_all add: ends_in_def bind_err_def)

lemma ends_in_prod: "(\<And>a b. ends_in Q (f a b)) \<Longrightarrow> ends_in Q (case p of (a, b) \<Rightarrow> f a b)"
  by (cases p) simp

lemma ends_in_prod_app:
  "(\<And>a b. ends_in Q (f a b c)) \<Longrightarrow> ends_in Q ((case p of (a, b) \<Rightarrow> f a b) c)"
  by (cases p) simp

lemma ends_in_Inr: "Q y \<Longrightarrow> ends_in Q (Inr y)"
  by (simp add: ends_in_def)

lemma ends_in_let: "ends_in Q (f x) \<Longrightarrow> ends_in Q (Let x f)"
  by simp

lemma ends_in_D: "ends_in Q m \<Longrightarrow> m = Inr y \<Longrightarrow> Q y"
  by (simp add: ends_in_def)

lemma agent_step_active:
  fixes w w' :: "'m world"
  assumes "agent_step ops w j = Inr w'" and a: "get_agent w j = Some a" and na: "\<not> isolated a"
  shows "\<exists>irv' ev rep vol eng. w' = finish_step w a irv' ev rep vol eng"
proof -
  have "ends_in (\<lambda>w'. \<exists>irv' ev rep vol eng. w' = finish_step w a irv' ev rep vol eng)
          (agent_step ops w j)"
    unfolding agent_step_def a option.case
    apply (simp only: na if_False)
    apply (intro ends_in_let ends_in_bind ends_in_prod ends_in_prod_app ends_in_Inr)
    apply blast
    done
  from ends_in_D [OF this assms(1)] show ?thesis .
qed

lemma agent_step_cases:
  fixes w w' :: "'m world"
  assumes "agent_step ops w j = Inr w'"
  shows "w' = w \<or> (\<exists>a irv' ev rep vol eng. get_agent w j = Some a \<and> \<not> isolated a
                      \<and> w' = finish_step w a irv' ev rep vol eng)"
proof (cases "get_agent w j")
  case None
  then show ?thesis using assms by (simp add: agent_step_def)
next
  case (Some a)
  show ?thesis
  proof (cases "isolated a")
    case True
    then show ?thesis using assms Some by (simp add: agent_step_def)
  next
    case False
    from agent_step_active [OF assms Some False] show ?thesis using Some False by blast
  qed
qed

lemma agent_step_result:
  fixes w w' :: "'m world"
  assumes "agent_step ops w j = Inr w'"
  shows "tau w' = tau w \<and>
         (agents w' = agents w
          \<or> (\<exists>a'. unique_id a' = j \<and> (reputation a' < tau w \<longrightarrow> isolated a')
                 \<and> agents w' = put_agent (agents w) a'))"
proof -
  from agent_step_cases [OF assms]
  consider "w' = w"
    | a irv' ev rep vol eng where "get_agent w j = Some a" "w' = finish_step w a irv' ev rep vol eng"
    by blast
  then show ?thesis
  proof cases
    case 1
    then show ?thesis by simp
  next
    case 2
    have "unique_id a = j" using get_agent_id [OF 2(1)] by simp
    then show ?thesis
      using finish_step_shape [of w a irv' ev rep vol eng] unfolding 2(2) by blast
  qed
qed

lemma agent_step_preserves:
  assumes "isolated_as w i r v" and "agent_step ops w j = Inr w'"
  shows "isolated_as w' i r v"
proof (cases "j = i")
  case True
  have "agent_step ops w i = Inr w" by (rule agent_step_isolated [OF assms(1)])
  then have "w' = w" using assms(2) unfolding True by simp
  then show ?thesis using assms(1) by simp
next
  case False
  from agent_step_result [OF assms(2)]
  consider "agents w' = agents w"
    | a' where "unique_id a' = j" "agents w' = put_agent (agents w) a'"
    by blast
  then show ?thesis
  proof cases
    case 1
    show ?thesis using assms(1) isolated_as_agents [OF 1, of i r v] by simp
  next
    case 2
    have ne: "unique_id a' \<noteq> i" unfolding 2(1) by (rule False)
    show ?thesis by (rule isolated_as_put [OF assms(1) ne 2(2)])
  qed
qed

lemma schedule_step_preserves:
  "isolated_as w i r v \<Longrightarrow> schedule_step ops order w = Inr w' \<Longrightarrow> isolated_as w' i r v"
proof (induction order arbitrary: w)
  case Nil
  then show ?case by simp
next
  case (Cons uid order)
  from Cons.prems(2) obtain w1 where s: "agent_step ops w uid = Inr w1"
    and r: "schedule_step ops order w1 = Inr w'"
    by (auto simp: bind_err_Inr)
  have "isolated_as w1 i r v" by (rule agent_step_preserves [OF Cons.prems(1) s])
  then show ?case using Cons.IH r by blast
qed

lemma isolated_as_map:
  assumes f: "\<And>a. unique_id (f a) = unique_id a \<and> isolated (f a) = isolated a
                 \<and> reputation (f a) = reputation a \<and> volatility (f a) = volatility a"
    and ag: "agents w' = map f (agents w)"
  shows "isolated_as w' i r v = isolated_as w i r v"
proof -
  have ids: "unique_id ` set (agents w') = unique_id ` set (agents w)"
    unfolding ag by (simp add: image_image f)
  have all: "(\<forall>a \<in> set (agents w'). unique_id a = i \<longrightarrow> isolated a \<and> reputation a = r \<and> volatility a = v)
           = (\<forall>a \<in> set (agents w). unique_id a = i \<longrightarrow> isolated a \<and> reputation a = r \<and> volatility a = v)"
    unfolding ag by (simp add: f)
  show ?thesis unfolding isolated_as_def ids all ..
qed

lemma inject_preserves:
  assumes "isolated_as w i r v" and "inject ops scen w = Inr w'"
  shows "isolated_as w' i r v"
proof (cases scen)
  case NoScenario
  then show ?thesis using assms by simp
next
  case SleeperAgent
  then obtain eng where "w' = w\<lparr>engine := eng\<rparr>"
    using assms(2) by (auto simp: bind_err_Inr Let_def)
  then have "agents w' = agents w" by simp
  from isolated_as_agents [OF this, of i r v] show ?thesis using assms(1) by simp
next
  case TransgressionRecovery
  let ?f = "\<lambda>a. if unique_id a \<in> set (attacker_ids w) then a\<lparr>is_attacker := False\<rparr> else a"
  from TransgressionRecovery obtain eng where
    "w' = w\<lparr>engine := eng\<rparr> \<or> w' = w\<lparr>agents := map ?f (agents w), engine := eng\<rparr>"
    using assms(2) by (auto simp: bind_err_Inr Let_def split: if_splits)
  then consider "agents w' = agents w" | "agents w' = map ?f (agents w)" by auto
  then show ?thesis
  proof cases
    case 1
    from isolated_as_agents [OF this, of i r v] show ?thesis using assms(1) by simp
  next
    case 2
    have "isolated_as w' i r v = isolated_as w i r v"
      by (rule isolated_as_map [OF _ 2]) simp
    then show ?thesis using assms(1) by simp
  qed
next
  case (CollusionFarming colluders)
  then obtain eng where "w' = w\<lparr>engine := eng\<rparr>"
    using assms(2) by (auto simp: bind_err_Inr)
  then have "agents w' = agents w" by simp
  from isolated_as_agents [OF this, of i r v] show ?thesis using assms(1) by simp
qed

lemma model_step_preserves:
  assumes "isolated_as w i r v" and "model_step ops scen order w = Inr w'"
  shows "isolated_as w' i r v"
proof -
  let ?w0 = "w\<lparr>newly_isolated := {}, current_step := current_step w + 1\<rparr>"
  from assms(2) obtain w1 w2 eng where
    inj: "inject ops scen ?w0 = Inr w1" and
    sch: "schedule_step ops order w1 = Inr w2" and
    fin: "agents w' = agents w2"
    by (auto simp: model_step_def bind_err_Inr Let_def)
  have "agents ?w0 = agents w" by simp
  from isolated_as_agents [OF this, of i r v] have "isolated_as ?w0 i r v" using assms(1) by simp
  then have "isolated_as w1 i r v" by (rule inject_preserves [OF _ inj])
  then have "isolated_as w2 i r v" by (rule schedule_step_preserves [OF _ sch])
  then show ?thesis using isolated_as_agents [OF fin, of i r v] by simp
qed

lemma model_steps_preserves:
  "isolated_as w i r v \<Longrightarrow> model_steps ops scen orders w = Inr w' \<Longrightarrow> isolated_as w' i r v"
proof (induction orders arbitrary: w)
  case Nil
  then show ?case by simp
next
  case (Cons order orders)
  from Cons.prems(2) obtain w1 where s: "model_step ops scen order w = Inr w1"
    and r: "model_steps ops scen orders w1 = Inr w'"
    by (auto simp: bind_err_Inr)
  have "isolated_as w1 i r v" by (rule model_step_preserves [OF Cons.prems(1) s])
  then show ?case using Cons.IH r by blast
qed

lemma agent_step_isolates:
  fixes w w' :: "'m world"
  assumes step: "agent_step ops w j = Inr w'" and a: "get_agent w j = Some a" and na: "\<not> isolated a"
  shows "\<exists>rep vol. (\<forall>b \<in> set (agents w'). unique_id b = j \<longrightarrow> reputation b = rep \<and> volatility b = vol)
                   \<and> (rep < tau w \<longrightarrow> isolated_as w' j rep vol)"
proof -
  from agent_step_active [OF step a na]
  obtain irv' ev rep vol eng where w': "w' = finish_step w a irv' ev rep vol eng" by blast
  have id: "unique_id a = j" and mem: "a \<in> set (agents w)" using get_agent_id [OF a] by simp_all
  from finish_step_shape [of w a irv' ev rep vol eng] obtain a' where
    a': "unique_id a' = j" "reputation a' < tau w \<longrightarrow> isolated a'" "reputation a' = rep"
        "volatility a' = vol" "agents w' = put_agent (agents w) a'"
    unfolding w' id by blast
  have all: "\<forall>b \<in> set (agents w'). unique_id b = j \<longrightarrow> b = a'"
    unfolding a'(5) using a'(1) by (auto simp: put_agent_def)
  have "j \<in> unique_id ` set (agents w')"
    unfolding a'(5) put_agent_ids using id mem by force
  then have "rep < tau w \<longrightarrow> isolated_as w' j rep vol"
    using all a'(2,3,4) by (auto simp: isolated_as_def)
  moreover have "\<forall>b \<in> set (agents w'). unique_id b = j \<longrightarrow> reputation b = rep \<and> volatility b = vol"
    using all a'(3,4) by auto
  ultimately show ?thesis by blast
qed

lemma bind_err_cong:
  "(\<And>x. m = Inr x \<Longrightarrow> f x = g x) \<Longrightarrow> bind_err m f = bind_err m g"
  by (cases m) (simp_all add: bind_err_def)

lemma evidence_loop_agree:
  assumes "agree_off i ops ops'" and "j \<noteq> i"
  shows "evidence_loop ops' eng j xs = evidence_loop ops eng j xs"
proof (induction xs arbitrary: eng)
  case Nil
  show ?case by simp
next
  case (Cons p xs)
  obtain t outcome where p: "p = (t, outcome)" by (cases p)
  have pe: "m_penalized_evidence ops' m j t outcome = m_penalized_evidence ops m j t outcome" for m
    using assms by (simp add: agree_off_def)
  show ?case
    by (simp only: p evidence_loop.simps pe Cons.IH)
qed

lemma agent_step_agree:
  fixes w :: "'m world"
  assumes iso: "isolated_as w i r v" and ag: "agree_off i ops ops'"
  shows "agent_step ops' w j = agent_step ops w j"
proof (cases "j = i")
  case True
  show ?thesis unfolding True agent_step_isolated [OF iso] ..
next
  case False
  have pool: "i \<notin> set (all_ids w)" by (rule all_ids_excludes [OF iso])
  have g: "m_generate ops' m j att = m_generate ops m j att" for m att
    using ag False by (simp add: agree_off_def)
  have p: "m_process ops' m j cs = m_process ops m j cs" for m cs
    using ag False by (simp add: agree_off_def)
  have gi: "m_generate_interactions ops' m j (all_ids w) = m_generate_interactions ops m j (all_ids w)" for m
    using ag False pool by (simp add: agree_off_def)
  have ev: "evidence_loop ops' m j xs = evidence_loop ops m j xs" for m xs
    by (rule evidence_loop_agree [OF ag False])
  have mo: "m_monitor ops' m j os = m_monitor ops m j os" for m os
    using ag False by (simp add: agree_off_def)
  have va: "m_vadm_step ops' m j x y = m_vadm_step ops m j x y" for m x y
    using ag False by (simp add: agree_off_def)
  show ?thesis
    by (simp only: agent_step_def Let_def g p gi ev mo va)
qed

lemma schedule_step_agree:
  fixes w :: "'m world"
  assumes ag: "agree_off i ops ops'"
  shows "isolated_as w i r v \<Longrightarrow> schedule_step ops' order w = schedule_step ops order w"
proof (induction order arbitrary: w)
  case Nil
  show ?case by simp
next
  case (Cons uid order)
  have s: "agent_step ops' w uid = agent_step ops w uid"
    by (rule agent_step_agree [OF Cons.prems ag])
  have "bind_err (agent_step ops w uid) (schedule_step ops' order)
      = bind_err (agent_step ops w uid) (schedule_step ops order)"
  proof (rule bind_err_cong)
    fix w1 assume "agent_step ops w uid = Inr w1"
    then have "isolated_as w1 i r v" by (rule agent_step_preserves [OF Cons.prems])
    then show "schedule_step ops' order w1 = schedule_step ops order w1" by (rule Cons.IH)
  qed
  then show ?case by (simp only: schedule_step.simps s)
qed

lemma force_loop_agree:
  assumes ag: "agree_off i ops ops'" and pool: "i \<notin> set active"
  shows "force_loop ops' active outcome uids eng = force_loop ops active outcome uids eng"
proof (induction uids arbitrary: eng)
  case Nil
  show ?case by simp
next
  case (Cons uid uids)
  show ?case
  proof (cases "uid \<in> set active")
    case False
    then show ?thesis by (simp add: Cons.IH)
  next
    case True
    then have ne: "uid \<noteq> i" using pool by auto
    have ch: "m_choice ops' m (filter (\<lambda>x. x \<noteq> uid) active)
            = m_choice ops m (filter (\<lambda>x. x \<noteq> uid) active)" for m
      using ag pool by (simp add: agree_off_def)
    have fo: "m_force_interaction ops' m uid t outcome = m_force_interaction ops m uid t outcome" for m t
      using ag ne by (simp add: agree_off_def)
    have ih: "force_loop ops' active outcome uids = force_loop ops active outcome uids"
      using Cons.IH by (rule ext)
    show ?thesis
      by (simp only: force_loop.simps Let_def ch fo ih)
  qed
qed

lemma force_all_agree:
  assumes ag: "agree_off i ops ops'"
  shows "i \<notin> fst ` set ps \<Longrightarrow> force_all ops' ps eng = force_all ops ps eng"
proof (induction ps arbitrary: eng)
  case Nil
  show ?case by simp
next
  case (Cons p ps)
  obtain uid t where p: "p = (uid, t)" by (cases p)
  have ne: "uid \<noteq> i" using Cons.prems p by auto
  have fo: "m_force_interaction ops' m uid t 1 = m_force_interaction ops m uid t 1" for m
    using ag ne by (simp add: agree_off_def)
  have "i \<notin> fst ` set ps" using Cons.prems by auto
  then have ih: "force_all ops' ps = force_all ops ps"
    using Cons.IH by (intro ext) simp
  show ?case by (simp only: p force_all.simps fo ih)
qed

lemma active_colluders_excludes:
  fixes w :: "'m world"
  assumes iso: "isolated_as w i r v"
  shows "active_colluders w cs = Inr act \<Longrightarrow> i \<notin> set act"
proof (induction cs arbitrary: act)
  case Nil
  then show ?case by simp
next
  case (Cons uid cs)
  from Cons.prems obtain a rest where a: "get_agent w uid = Some a"
    and rest: "active_colluders w cs = Inr rest"
    and act: "act = (if \<not> isolated a then uid # rest else rest)"
    by (auto simp: bind_err_Inr split: option.splits)
  have "i \<notin> set rest" using Cons.IH rest by blast
  moreover have "\<not> isolated a \<Longrightarrow> uid \<noteq> i"
    using get_agent_id [OF a] iso by (auto simp: isolated_as_def)
  ultimately show ?case unfolding act by auto
qed

lemma inject_agree:
  fixes w :: "'m world"
  assumes iso: "isolated_as w i r v" and ag: "agree_off i ops ops'"
  shows "inject ops' scen w = inject ops scen w"
proof (cases scen)
  case NoScenario
  then show ?thesis by simp
next
  case SleeperAgent
  have pool: "i \<notin> set (all_ids w)" by (rule all_ids_excludes [OF iso])
  show ?thesis
    unfolding SleeperAgent by (simp only: inject.simps Let_def force_loop_agree [OF ag pool])
next
  case TransgressionRecovery
  let ?f = "\<lambda>a. if unique_id a \<in> set (attacker_ids w) then a\<lparr>is_attacker := False\<rparr> else a"
  let ?w = "w\<lparr>agents := map ?f (agents w)\<rparr>"
  have pool: "i \<notin> set (all_ids w)" by (rule all_ids_excludes [OF iso])
  have "isolated_as ?w i r v = isolated_as w i r v"
    by (rule isolated_as_map [where f = ?f]) simp_all
  then have "isolated_as ?w i r v" using iso by simp
  then have pool': "i \<notin> set (all_ids ?w)" by (rule all_ids_excludes)
  show ?thesis
    unfolding TransgressionRecovery
    by (simp only: inject.simps Let_def force_loop_agree [OF ag pool] force_loop_agree [OF ag pool']
        if_distrib [of "\<lambda>w. force_loop ops' (all_ids w) _ (attacker_ids w) (engine w)"] cong: if_cong)
      (simp add: force_loop_agree [OF ag pool] force_loop_agree [OF ag pool'] Let_def)
next
  case (CollusionFarming colluders)
  have "bind_err (active_colluders w colluders) (\<lambda>act.
          bind_err (force_all ops' [(uid, target). uid \<leftarrow> act, target \<leftarrow> act, target \<noteq> uid] (engine w))
            (\<lambda>eng. Inr (w\<lparr>engine := eng\<rparr>)))
      = bind_err (active_colluders w colluders) (\<lambda>act.
          bind_err (force_all ops [(uid, target). uid \<leftarrow> act, target \<leftarrow> act, target \<noteq> uid] (engine w))
            (\<lambda>eng. Inr (w\<lparr>engine := eng\<rparr>)))"
  proof (rule bind_err_cong)
    fix act assume "active_colluders w colluders = Inr act"
    then have "i \<notin> set act" by (rule active_colluders_excludes [OF iso])
    then have "i \<notin> fst ` set [(uid, target). uid \<leftarrow> act, target \<leftarrow> act, target \<noteq> uid]"
      by auto
    from force_all_agree [OF ag this]
    show "bind_err (force_all ops' [(uid, target). uid \<leftarrow> act, target \<leftarrow> act, target \<noteq> uid] (engine w))
            (\<lambda>eng. Inr (w\<lparr>engine := eng\<rparr>))
        = bind_err (force_all ops [(uid, target). uid \<leftarrow> act, target \<leftarrow> act, target \<noteq> uid] (engine w))
            (\<lambda>eng. Inr (w\<lparr>engine := eng\<rparr>))"
      by simp
  qed
  then show ?thesis unfolding CollusionFarming by (simp only: inject.simps)
qed

lemma model_step_agree:
  fixes w :: "'m world"
  assumes iso: "isolated_as w i r v" and ag: "agree_off i ops ops'"
  shows "model_step ops' scen order w = model_step ops scen order w"
proof -
  let ?w0 = "w\<lparr>newly_isolated := {}\<rparr>\<lparr>current_step := current_step (w\<lparr>newly_isolated := {}\<rparr>) + 1\<rparr>"
  have "agents ?w0 = agents w" by simp
  from isolated_as_agents [OF this, of i r v] have iso0: "isolated_as ?w0 i r v" using iso by simp
  have inj: "inject ops' scen ?w0 = inject ops scen ?w0"
    by (rule inject_agree [OF iso0 ag])
  have tk: "m_tick ops' m = m_tick ops m" for m
    using ag by (simp add: agree_off_def)
  have gen: "bind_err (inject ops scen ?w0) (\<lambda>w. bind_err (schedule_step ops' order w) k)
      = bind_err (inject ops scen ?w0) (\<lambda>w. bind_err (schedule_step ops order w) k)" for k :: "'m world \<Rightarrow> error + 'm world"
  proof (rule bind_err_cong)
    fix w1 assume "inject ops scen ?w0 = Inr w1"
    then have "isolated_as w1 i r v" by (rule inject_preserves [OF iso0])
    then have "schedule_step ops' order w1 = schedule_step ops order w1"
      by (rule schedule_step_agree [OF ag])
    then show "bind_err (schedule_step ops' order w1) k = bind_err (schedule_step ops order w1) k"
      by simp
  qed
  show ?thesis
    unfolding model_step_def Let_def inj tk by (rule gen)
qed

lemma model_steps_agree:
  fixes w :: "'m world"
  assumes ag: "agree_off i ops ops'"
  shows "isolated_as w i r v \<Longrightarrow> model_steps ops' scen orders w = model_steps ops scen orders w"
proof (induction orders arbitrary: w)
  case Nil
  show ?case by simp
next
  case (Cons order orders)
  have s: "model_step ops' scen order w = model_step ops scen order w"
    by (rule model_step_agree [OF Cons.prems ag])
  have "bind_err (model_step ops scen order w) (model_steps ops' scen orders)
      = bind_err (model_step ops scen order w) (model_steps ops scen orders)"
  proof (rule bind_err_cong)
    fix w1 assume "model_step ops scen order w = Inr w1"
    then have "isolated_as w1 i r v" by (rule model_step_preserves [OF Cons.prems])
    then show "model_steps ops' scen orders w1 = model_steps ops scen orders w1" by (rule Cons.IH)
  qed
  then show ?case by (simp only: model_steps.simps s)
qed

text \<open>
  Claim C8. When the step of an active agent \<open>j\<close> leaves it with a reputation below
  \<open>tau\<close>, the agent is isolated with that reputation and volatility. From a state in
  which agent \<open>i\<close> is isolated with reputation \<open>r\<close> and volatility \<open>v\<close>: its own step
  returns at once and changes nothing; it is not among the ids that are not isolated;
  after any agent's step, any pass of the scheduler and any number of model steps, under
  each of the repository's scenarios and for any behaviour of the modules, it is still
  isolated with the same reputation and volatility. Moreover no module call is made for
  it and no pool or target list that is offered contains it: every agent's step, every
  pass of the scheduler and every run of model steps is the same, result and errors
  included, when the module operations are replaced by any others that differ only on
  the calls made for agent \<open>i\<close> and on the calls offered a list with \<open>i\<close> in it.
\<close>

theorem isolation_is_final:
  fixes w :: "'m world"
  shows "(\<forall>w0 j a. agent_step ops w0 j = Inr w \<and> get_agent w0 j = Some a \<and> \<not> isolated a \<longrightarrow>
            (\<exists>rep vol. (\<forall>b \<in> set (agents w). unique_id b = j \<longrightarrow> reputation b = rep \<and> volatility b = vol)
                       \<and> (rep < tau w0 \<longrightarrow> isolated_as w j rep vol)))
       \<and> (isolated_as w i r v \<longrightarrow>
            agent_step ops w i = Inr w
          \<and> i \<notin> set (all_ids w)
          \<and> (\<forall>j w'. agent_step ops w j = Inr w' \<longrightarrow> isolated_as w' i r v)
          \<and> (\<forall>order w'. schedule_step ops order w = Inr w' \<longrightarrow>
                 isolated_as w' i r v \<and> i \<notin> set (all_ids w'))
          \<and> (\<forall>orders w'. model_steps ops scen orders w = Inr w' \<longrightarrow>
                 isolated_as w' i r v \<and> agent_step ops w' i = Inr w' \<and> i \<notin> set (all_ids w'))
          \<and> (\<forall>ops'. agree_off i ops ops' \<longrightarrow>
                 (\<forall>j. agent_step ops' w j = agent_step ops w j)
               \<and> (\<forall>order. schedule_step ops' order w = schedule_step ops order w)
               \<and> (\<forall>orders. model_steps ops' scen orders w = model_steps ops scen orders w)))"
proof -
  have t: "\<forall>w0 j a. agent_step ops w0 j = Inr w \<and> get_agent w0 j = Some a \<and> \<not> isolated a \<longrightarrow>
            (\<exists>rep vol. (\<forall>b \<in> set (agents w). unique_id b = j \<longrightarrow> reputation b = rep \<and> volatility b = vol)
                       \<and> (rep < tau w0 \<longrightarrow> isolated_as w j rep vol))"
    using agent_step_isolates by blast
  have f: "agent_step ops w i = Inr w
          \<and> i \<notin> set (all_ids w)
          \<and> (\<forall>j w'. agent_step ops w j = Inr w' \<longrightarrow> isolated_as w' i r v)
          \<and> (\<forall>order w'. schedule_step ops order w = Inr w' \<longrightarrow>
                 isolated_as w' i r v \<and> i \<notin> set (all_ids w'))
          \<and> (\<forall>orders w'. model_steps ops scen orders w = Inr w' \<longrightarrow>
                 isolated_as w' i r v \<and> agent_step ops w' i = Inr w' \<and> i \<notin> set (all_ids w'))
          \<and> (\<forall>ops'. agree_off i ops ops' \<longrightarrow>
                 (\<forall>j. agent_step ops' w j = agent_step ops w j)
               \<and> (\<forall>order. schedule_step ops' order w = schedule_step ops order w)
               \<and> (\<forall>orders. model_steps ops' scen orders w = model_steps ops scen orders w))"
    if iso: "isolated_as w i r v"
  proof -
    have a: "agent_step ops w i = Inr w" by (rule agent_step_isolated [OF iso])
    have b: "i \<notin> set (all_ids w)" by (rule all_ids_excludes [OF iso])
    have c: "\<forall>j w'. agent_step ops w j = Inr w' \<longrightarrow> isolated_as w' i r v"
      using agent_step_preserves [OF iso] by blast
    have d: "\<forall>order w'. schedule_step ops order w = Inr w' \<longrightarrow>
                isolated_as w' i r v \<and> i \<notin> set (all_ids w')"
      using schedule_step_preserves [OF iso] all_ids_excludes by blast
    have e: "\<forall>orders w'. model_steps ops scen orders w = Inr w' \<longrightarrow>
                isolated_as w' i r v \<and> agent_step ops w' i = Inr w' \<and> i \<notin> set (all_ids w')"
      using model_steps_preserves [OF iso] agent_step_isolated all_ids_excludes by blast
    have g: "\<forall>ops'. agree_off i ops ops' \<longrightarrow>
                 (\<forall>j. agent_step ops' w j = agent_step ops w j)
               \<and> (\<forall>order. schedule_step ops' order w = schedule_step ops order w)
               \<and> (\<forall>orders. model_steps ops' scen orders w = model_steps ops scen orders w)"
      using agent_step_agree [OF iso] schedule_step_agree [OF _ iso] model_steps_agree [OF _ iso]
      by blast
    show ?thesis using a b c d e g by blast
  qed
  show ?thesis using t f by blast
qed

lemma demo_isolated: "isolated_as demo_world 0 (1/5) 0"
  by (simp add: isolated_as_def demo_world_def demo_agent_def)

lemma demo_step1:
  "agent_step demo_modules demo_world 1
     = Inr (demo_world\<lparr>agents := [demo_agent 0 (1/5) True,
                                   (demo_agent 1 (3/10) True)\<lparr>irv := [3/10, 0, 0, 3/10, 3/10]\<rparr>],
                       newly_isolated := {1}\<rparr>)"
  by (simp add: agent_step_def get_agent_def demo_world_def demo_agent_def demo_modules_def
      bind_err_def all_ids_def finish_step_def put_agent_def Let_def)

lemma demo_run:
  "map_sum id agents (model_steps demo_modules NoScenario [[1, 0], [0, 1]] demo_world)
     = Inr [demo_agent 0 (1/5) True,
            (demo_agent 1 (3/10) True)\<lparr>irv := [3/10, 0, 0, 3/10, 3/10]\<rparr>]"
  by (simp add: model_step_def agent_step_def get_agent_def demo_world_def demo_agent_def
      demo_modules_def bind_err_def all_ids_def finish_step_def put_agent_def Let_def)

lemma demo_world_after:
  "model_steps demo_modules NoScenario [[1, 0], [0, 1]] demo_world
     = Inr (demo_world\<lparr>agents := [demo_agent 0 (1/5) True,
                                   (demo_agent 1 (3/10) True)\<lparr>irv := [3/10, 0, 0, 3/10, 3/10]\<rparr>],
                       current_step := 2, isolation_step := [1 \<mapsto> 1]\<rparr>)"
  by (simp add: model_step_def agent_step_def get_agent_def demo_world_def demo_agent_def
      demo_modules_def bind_err_def all_ids_def finish_step_def put_agent_def Let_def fun_eq_iff)

lemma tripwire_agree: "agree_off i demo_modules (tripwire_modules i)"
  by (simp add: agree_off_def tripwire_modules_def)

lemma tripwire_active:
  "agent_step (tripwire_modules 0) active_world 1 = Inl KeyError"
  by (simp add: agent_step_def get_agent_def active_world_def demo_world_def demo_agent_def
      tripwire_modules_def demo_modules_def bind_err_def all_ids_def Let_def)

lemma demo_active:
  "map_sum id all_ids (agent_step demo_modules active_world 1) = Inr [0]"
  by (simp add: agent_step_def get_agent_def active_world_def demo_world_def demo_agent_def
      demo_modules_def bind_err_def all_ids_def finish_step_def put_agent_def Let_def)

text \<open>
  The run of the small model: agent 0 stays as it is while agent 1 is stepped and
  isolated; the run is the same with the tripwire for agent 0 in place, and the tripwire
  does go off when agent 0 is active and agent 1 is stepped.
\<close>

theorem isolation_is_final_witness:
  "isolated_as demo_world 0 (1/5) 0
     \<and> agent_step demo_modules demo_world 0 = Inr demo_world
     \<and> all_ids demo_world = [1]
     \<and> map_sum id agents (model_steps demo_modules NoScenario [[1, 0], [0, 1]] demo_world)
         = Inr [demo_agent 0 (1/5) True,
                (demo_agent 1 (3/10) True)\<lparr>irv := [3/10, 0, 0, 3/10, 3/10]\<rparr>]
     \<and> map_sum id all_ids (model_steps demo_modules NoScenario [[1, 0], [0, 1]] demo_world) = Inr []
     \<and> map_sum id (\<lambda>w. isolated_as w 0 (1/5) 0)
           (model_steps demo_modules NoScenario [[1, 0], [0, 1]] demo_world) = Inr True
     \<and> map_sum id (\<lambda>w. isolated_as w 1 (3/10) 0)
           (agent_step demo_modules demo_world 1) = Inr True
     \<and> agree_off 0 demo_modules (tripwire_modules 0)
     \<and> map_sum id agents (model_steps (tripwire_modules 0) NoScenario [[1, 0], [0, 1]] demo_world)
         = Inr [demo_agent 0 (1/5) True,
                (demo_agent 1 (3/10) True)\<lparr>irv := [3/10, 0, 0, 3/10, 3/10]\<rparr>]
     \<and> agent_step (tripwire_modules 0) active_world 1 = Inl KeyError
     \<and> map_sum id all_ids (agent_step demo_modules active_world 1) = Inr [0]"
proof -
  have ids: "all_ids demo_world = [1]"
    by (simp add: all_ids_def demo_world_def demo_agent_def)
  have s1: "agent_step demo_modules demo_world 1
     = Inr (demo_world\<lparr>agents := [demo_agent 0 (1/5) True,
                                   (demo_agent 1 (3/10) True)\<lparr>irv := [3/10, 0, 0, 3/10, 3/10]\<rparr>],
                       newly_isolated := {1}\<rparr>)"
    by (rule demo_step1)
  have i1: "isolated_as (demo_world\<lparr>agents := [demo_agent 0 (1/5) True,
                                   (demo_agent 1 (3/10) True)\<lparr>irv := [3/10, 0, 0, 3/10, 3/10]\<rparr>],
                       newly_isolated := {1}\<rparr>) 1 (3/10) 0"
    by (simp add: isolated_as_def demo_agent_def)
  note fin = isolation_is_final [of demo_modules demo_world 0 "1/5" 0 NoScenario]
  have c2: "agent_step demo_modules demo_world 0 = Inr demo_world"
    using fin demo_isolated by blast
  have c4: "map_sum id agents (model_steps demo_modules NoScenario [[1, 0], [0, 1]] demo_world)
         = Inr [demo_agent 0 (1/5) True,
                (demo_agent 1 (3/10) True)\<lparr>irv := [3/10, 0, 0, 3/10, 3/10]\<rparr>]"
    unfolding demo_world_after by simp
  have c5: "map_sum id all_ids (model_steps demo_modules NoScenario [[1, 0], [0, 1]] demo_world) = Inr []"
    unfolding demo_world_after by (simp add: all_ids_def demo_agent_def)
  have c6: "map_sum id (\<lambda>w. isolated_as w 0 (1/5) 0)
           (model_steps demo_modules NoScenario [[1, 0], [0, 1]] demo_world) = Inr True"
    unfolding demo_world_after by (simp add: isolated_as_def demo_agent_def)
  have c7: "map_sum id (\<lambda>w. isolated_as w 1 (3/10) 0)
           (agent_step demo_modules demo_world 1) = Inr True"
    unfolding s1 using i1 by simp
  have c8: "model_steps (tripwire_modules 0) NoScenario [[1, 0], [0, 1]] demo_world
          = model_steps demo_modules NoScenario [[1, 0], [0, 1]] demo_world"
    using fin demo_isolated tripwire_agree [of 0] by blast
  have c9: "map_sum id agents (model_steps (tripwire_modules 0) NoScenario [[1, 0], [0, 1]] demo_world)
         = Inr [demo_agent 0 (1/5) True,
                (demo_agent 1 (3/10) True)\<lparr>irv := [3/10, 0, 0, 3/10, 3/10]\<rparr>]"
    unfolding c8 by (rule c4)
  show ?thesis
    using demo_isolated c2 ids c4 c5 c6 c7 tripwire_agree [of 0] c9 tripwire_active demo_active
    by blast
qed

section \<open>Properties of the credential synthesizer\<close>

subsection \<open>Two calls that differ in the clock only\<close>

lemma same_run_refl: "(\<And>v. R v v) \<Longrightarrow> same_run R m m"
  by (cases m) (auto simp: same_run_def)

lemma same_run_Inr: "R v1 v2 \<Longrightarrow> same_run R (Inr (v1, s)) (Inr (v2, s))"
  by (simp add: same_run_def)

lemma same_run_bind:
  assumes "same_run R m1 m2"
    and "\<And>v1 v2 s. R v1 v2 \<Longrightarrow> same_run Q (f1 (v1, s)) (f2 (v2, s))"
  shows "same_run Q (bind_err m1 f1) (bind_err m2 f2)"
proof -
  from assms(1) consider e where "m1 = Inl e" "m2 = Inl e"
    | v1 v2 s where "m1 = Inr (v1, s)" "m2 = Inr (v2, s)" "R v1 v2"
    unfolding same_run_def by blast
  then show ?thesis
  proof cases
    case 1
    then show ?thesis by (simp add: same_run_def bind_err_def)
  next
    case 2
    then show ?thesis using assms(2) [OF 2(3), of s] by (simp add: bind_err_def)
  qed
qed

lemma attr_value_for_no_clock:
  assumes "\<not> is_epoch_key k"
  shows "attr_value_for lib c1 k att st = attr_value_for lib c2 k att st"
  using assms by (auto simp: attr_value_for_def is_epoch_key_def Let_def)

lemma attr_value_for_epoch:
  assumes "is_epoch_key k"
  shows "attr_value_for lib c k att st
       = (AInt (c (snd st) + fst (lib_randint lib (fst st) 86400 31536000)),
          (snd (lib_randint lib (fst st) 86400 31536000), snd st + 1))"
  using assms by (simp add: attr_value_for_def is_epoch_key_def Let_def case_prod_beta)

lemma attr_value_for_erased:
  "erase_attr (k, fst (attr_value_for lib c1 k att st)) = erase_attr (k, fst (attr_value_for lib c2 k att st))
     \<and> snd (attr_value_for lib c1 k att st) = snd (attr_value_for lib c2 k att st)"
proof (cases "is_epoch_key k")
  case True
  then show ?thesis by (simp add: attr_value_for_epoch erase_attr_def)
next
  case False
  then show ?thesis using attr_value_for_no_clock [OF False, of lib c1 att st c2] by simp
qed

lemma erase_attr_fst: "fst (erase_attr kv) = fst kv"
  by (simp add: erase_attr_def)

lemma dict_set_erased:
  "map erase_attr a1 = map erase_attr a2 \<Longrightarrow> erase_attr (k, v1) = erase_attr (k, v2) \<Longrightarrow>
     map erase_attr (dict_set a1 k v1) = map erase_attr (dict_set a2 k v2)"
proof (induction a1 arbitrary: a2)
  case Nil
  then show ?case by simp
next
  case (Cons p a1)
  then obtain q a2' where a2: "a2 = q # a2'" by (cases a2) auto
  obtain k1 x1 where p: "p = (k1, x1)" by (cases p)
  obtain k2 x2 where q: "q = (k2, x2)" by (cases q)
  have hd: "erase_attr (k1, x1) = erase_attr (k2, x2)" and tl: "map erase_attr a1 = map erase_attr a2'"
    using Cons.prems(1) by (simp_all add: a2 p q)
  have keq: "k1 = k2" using hd erase_attr_fst [of "(k1, x1)"] erase_attr_fst [of "(k2, x2)"] by simp
  show ?case
    using Cons.IH [OF tl Cons.prems(2)] hd Cons.prems(2) tl
    by (simp add: a2 p q keq)
qed

lemma attrs_loop_erased:
  "map erase_attr a1 = map erase_attr a2 \<Longrightarrow>
     map erase_attr (fst (attrs_loop lib c1 att ks a1 st)) = map erase_attr (fst (attrs_loop lib c2 att ks a2 st))
     \<and> snd (attrs_loop lib c1 att ks a1 st) = snd (attrs_loop lib c2 att ks a2 st)"
proof (induction ks arbitrary: a1 a2 st)
  case Nil
  then show ?case by simp
next
  case (Cons k ks)
  obtain v1 s1 where r1: "attr_value_for lib c1 k att st = (v1, s1)" by (cases "attr_value_for lib c1 k att st")
  obtain v2 s2 where r2: "attr_value_for lib c2 k att st = (v2, s2)" by (cases "attr_value_for lib c2 k att st")
  have e: "erase_attr (k, v1) = erase_attr (k, v2)" and s: "s1 = s2"
    using attr_value_for_erased [of k lib c1 att st c2] by (simp_all add: r1 r2)
  have "map erase_attr (dict_set a1 k v1) = map erase_attr (dict_set a2 k v2)"
    by (rule dict_set_erased [OF Cons.prems e])
  from Cons.IH [OF this, of s2] show ?case by (simp add: r1 r2 s)
qed

lemma build_attributes_erased:
  "same_run (\<lambda>a1 a2. map erase_attr a1 = map erase_attr a2)
     (build_attributes lib c1 vt st att) (build_attributes lib c2 vt st att)"
proof (cases "dict_index ATTR_KEY_MAP vt")
  case (Inl e)
  then show ?thesis by (simp add: build_attributes_def bind_err_def same_run_def)
next
  case (Inr keys)
  obtain x1 s1 where r1: "attrs_loop lib c1 att keys [] st = (x1, s1)" by (cases "attrs_loop lib c1 att keys [] st")
  obtain x2 s2 where r2: "attrs_loop lib c2 att keys [] st = (x2, s2)" by (cases "attrs_loop lib c2 att keys [] st")
  have "map erase_attr x1 = map erase_attr x2 \<and> s1 = s2"
    using attrs_loop_erased [of "[]" "[]" lib c1 att keys st c2] by (simp add: r1 r2)
  then show ?thesis
    by (simp add: build_attributes_def bind_err_def same_run_def Inr r1 r2)
qed

lemma same_run_eq:
  assumes "\<And>v s. same_run Q (f1 (v, s)) (f2 (v, s))"
  shows "same_run Q (bind_err m f1) (bind_err m f2)"
  by (rule same_run_bind [where R = "(=)"]) (auto intro: same_run_refl assms)

lemma erase_time_eq:
  "map erase_attr a1 = map erase_attr a2 \<Longrightarrow>
     erase_time \<lparr>vc_id = x1, vc_type = x2, issuer_tier = x3, issuer_trust = x4, subject_id = x5,
                  revoked = x6, attributes = a1, bba = x8, issuance_ts = t1, chain_depth = x10\<rparr>
   = erase_time \<lparr>vc_id = x1, vc_type = x2, issuer_tier = x3, issuer_trust = x4, subject_id = x5,
                  revoked = x6, attributes = a2, bba = x8, issuance_ts = t2, chain_depth = x10\<rparr>"
  by (simp add: erase_time_def)

lemma generate_record_erased:
  "same_run (\<lambda>r1 r2. erase_time r1 = erase_time r2)
     (generate_record lib c1 a att i vt st) (generate_record lib c2 a att i vt st)"
  unfolding generate_record_def Let_def case_prod_beta
  apply (rule same_run_eq)
  apply (simp only: fst_conv snd_conv)
  apply (rule same_run_eq)
  apply (simp only: fst_conv snd_conv)
  apply (rule same_run_bind [OF build_attributes_erased])
  apply (simp only: fst_conv snd_conv)
  apply (rule same_run_eq)
  apply (simp only: fst_conv snd_conv)
  apply (rule same_run_eq)
  apply (simp only: fst_conv snd_conv)
  apply (rule same_run_Inr)
  apply (rule erase_time_eq)
  apply assumption
  done

lemma same_run_cases:
  assumes "same_run R x y"
  obtains e where "x = Inl e" "y = Inl e"
    | v1 v2 s where "x = Inr (v1, s)" "y = Inr (v2, s)" "R v1 v2"
  using assms unfolding same_run_def by blast

lemma generate_loop_erased:
  "map_sum id (map erase_time) (generate_loop lib c1 a att i vts st)
     = map_sum id (map erase_time) (generate_loop lib c2 a att i vts st)"
proof (induction vts arbitrary: i st)
  case Nil
  show ?case by simp
next
  case (Cons vt vts)
  from generate_record_erased [of lib c1 a att i vt st c2] show ?case
  proof (cases rule: same_run_cases)
    case (1 e)
    then show ?thesis by (simp add: bind_err_def)
  next
    case (2 r1 r2 s)
    have ih: "map_sum id (map erase_time) (generate_loop lib c1 a att (Suc i) vts s)
            = map_sum id (map erase_time) (generate_loop lib c2 a att (Suc i) vts s)"
      by (rule Cons.IH)
    show ?thesis
    proof (cases "generate_loop lib c1 a att (Suc i) vts s")
      case (Inl e)
      then have "generate_loop lib c2 a att (Suc i) vts s = Inl e"
        using ih by (cases "generate_loop lib c2 a att (Suc i) vts s") simp_all
      then show ?thesis using 2 Inl by (simp add: bind_err_def)
    next
      case (Inr rs1)
      then obtain rs2 where r2: "generate_loop lib c2 a att (Suc i) vts s = Inr rs2"
        and e: "map erase_time rs1 = map erase_time rs2"
        using ih by (cases "generate_loop lib c2 a att (Suc i) vts s") simp_all
      show ?thesis using 2 Inr r2 e by (simp add: bind_err_def)
    qed
  qed
qed

subsection \<open>The generator is used from the seeded state on\<close>

lemma reseed_fields:
  "lib_random (lib\<lparr>lib_seed := f\<rparr>) = lib_random lib"
  "lib_uniform (lib\<lparr>lib_seed := f\<rparr>) = lib_uniform lib"
  "lib_randint (lib\<lparr>lib_seed := f\<rparr>) = lib_randint lib"
  "lib_getrandbits (lib\<lparr>lib_seed := f\<rparr>) = lib_getrandbits lib"
  "lib_choice (lib\<lparr>lib_seed := f\<rparr>) = lib_choice lib"
  "lib_choices (lib\<lparr>lib_seed := f\<rparr>) = lib_choices lib"
  "lib_sha3_hex32 (lib\<lparr>lib_seed := f\<rparr>) = lib_sha3_hex32 lib"
  "lib_round4 (lib\<lparr>lib_seed := f\<rparr>) = lib_round4 lib"
  by simp_all

lemma attr_value_for_reseed:
  "attr_value_for (lib\<lparr>lib_seed := f\<rparr>) c k att st = attr_value_for lib c k att st"
  unfolding attr_value_for_def reseed_fields by (rule refl)

lemma attrs_loop_reseed:
  "attrs_loop (lib\<lparr>lib_seed := f\<rparr>) c att ks attrs st = attrs_loop lib c att ks attrs st"
proof (induction ks arbitrary: attrs st)
  case Nil
  show ?case by simp
next
  case (Cons k ks)
  show ?case unfolding attrs_loop.simps attr_value_for_reseed Cons.IH by (rule refl)
qed

lemma build_attributes_reseed:
  "build_attributes (lib\<lparr>lib_seed := f\<rparr>) c vt st att = build_attributes lib c vt st att"
  unfolding build_attributes_def attrs_loop_reseed by (rule refl)

lemma bba_reseed:
  "build_honest_bba (lib\<lparr>lib_seed := f\<rparr>) rng = build_honest_bba lib rng"
  "build_attacker_bba (lib\<lparr>lib_seed := f\<rparr>) rng = build_attacker_bba lib rng"
  unfolding build_honest_bba_def build_attacker_bba_def reseed_fields by (rule refl)+

lemma bba_fn_reseed:
  "(if att then build_attacker_bba else build_honest_bba) (lib\<lparr>lib_seed := f\<rparr>) rng
     = (if att then build_attacker_bba else build_honest_bba) lib rng"
  by (simp add: bba_reseed)

lemma issuer_reseed:
  "issuer_tier_for_vc_type (lib\<lparr>lib_seed := f\<rparr>) vt rng = issuer_tier_for_vc_type lib vt rng"
  "issuer_trust_for (lib\<lparr>lib_seed := f\<rparr>) tier rng = issuer_trust_for lib tier rng"
  "chain_depth_for (lib\<lparr>lib_seed := f\<rparr>) tier rng = chain_depth_for lib tier rng"
  unfolding issuer_tier_for_vc_type_def issuer_trust_for_def chain_depth_for_def reseed_fields
  by (rule refl)+

lemma generate_record_reseed:
  "generate_record (lib\<lparr>lib_seed := f\<rparr>) c a att i vt st = generate_record lib c a att i vt st"
  unfolding generate_record_def issuer_reseed bba_fn_reseed build_attributes_reseed reseed_fields
  by (rule refl)

lemma generate_loop_reseed:
  "generate_loop (lib\<lparr>lib_seed := f\<rparr>) c a att i vts st = generate_loop lib c a att i vts st"
proof (induction vts arbitrary: i st)
  case Nil
  show ?case by simp
next
  case (Cons vt vts)
  show ?case unfolding generate_loop.simps generate_record_reseed Cons.IH by (rule refl)
qed

subsection \<open>A run on the scripted generator\<close>

lemma scripted_fields:
  "lib_seed scripted_lib s = nat s"
  "lib_random scripted_lib r = (1/2, Suc r)"
  "lib_uniform scripted_lib r lo hi = (lo, Suc r)"
  "lib_randint scripted_lib r a b = (a, Suc r)"
  "lib_getrandbits scripted_lib r k = (0, Suc r)"
  "lib_round4 scripted_lib x = x"
  "lib_choices scripted_lib r (p # ps) w k = (replicate (nat k) ((p # ps) ! (r mod length (p # ps))), Suc r)"
  by (simp_all add: scripted_lib_def)

lemma delegated_keys:
  "dict_index ATTR_KEY_MAP ''DELEGATED''
     = Inr [''delegator_id'', ''delegation_depth'', ''scope_bitmask'', ''expiry_epoch'']"
  by (simp add: dict_index_def ATTR_KEY_MAP_def)

lemma delegated_attr_values:
  "attr_value_for scripted_lib c ''delegator_id'' False (r, k) = (AFloat 0, (Suc r, k))"
  "attr_value_for scripted_lib c ''delegation_depth'' False (r, k) = (AInt 0, (Suc r, k))"
  "attr_value_for scripted_lib c ''scope_bitmask'' False (r, k) = (AInt 0, (Suc r, k))"
  "attr_value_for scripted_lib c ''expiry_epoch'' False (r, k) = (AInt (c k + 86400), (Suc r, Suc k))"
  by (simp_all add: attr_value_for_def scripted_fields)

lemma delegated_attributes:
  "build_attributes scripted_lib c ''DELEGATED'' (r, k) False
     = Inr ([(''delegator_id'', AFloat 0), (''delegation_depth'', AInt 0),
             (''scope_bitmask'', AInt 0), (''expiry_epoch'', AInt (c k + 86400))],
            (Suc (Suc (Suc (Suc r))), Suc k))"
  by (simp add: build_attributes_def delegated_keys bind_err_def delegated_attr_values)

lemma delegated_tier:
  "issuer_tier_for_vc_type scripted_lib ''DELEGATED'' 4 = Inr (''INTERMEDIATE_CA'', 5)"
  by (simp add: issuer_tier_for_vc_type_def dict_index_def bind_err_def ISSUER_TIERS_def scripted_lib_def)

lemma intermediate_trust:
  "issuer_trust_for scripted_lib ''INTERMEDIATE_CA'' r = Inr (7/10, Suc r)"
  by (simp add: issuer_trust_for_def dict_index_def bind_err_def TIER_TRUST_RANGE_def scripted_fields)

lemma intermediate_depth:
  "chain_depth_for scripted_lib ''INTERMEDIATE_CA'' r = Inr (1, Suc r)"
  by (simp add: chain_depth_for_def dict_index_def bind_err_def scripted_fields)

lemma scripted_honest_bba:
  "build_honest_bba scripted_lib r
     = Inr ([(S_TR, 50/57), (S_UN, 0), (S_UK, 4/57), (S_TR_UK, 0), (FRAME, 1/19)],
            Suc (Suc (Suc (Suc (Suc r)))))"
  by (simp add: build_honest_bba_def scripted_fields)

lemma delegated_vc_id:
  "''vc-'' @ fmt_04d 3 @ ''-'' @ decimal 0 @ ''-'' @ take 3 ''DELEGATED'' = ''vc-0003-0-DEL''"
  by (simp add: fmt_04d_def numeral_3_eq_3)

lemma delegated_generate_record:
  "generate_record scripted_lib c 3 False 0 ''DELEGATED'' (4, 0)
     = Inr (delegated_record (c 0 + 86400) (c 1), (18, 2))"
  unfolding generate_record_def Let_def fst_conv snd_conv delegated_tier bind_err_def
    sum.case prod.case intermediate_trust if_False
  unfolding scripted_fields prod.case delegated_attributes sum.case fst_conv snd_conv
    scripted_honest_bba intermediate_depth delegated_vc_id
  by (simp add: delegated_record_def REVOCATION_PROB_HONEST_def)

lemma delegated_types:
  "lib_choices scripted_lib (lib_seed scripted_lib (3 + 0 * 100003)) VC_TYPES None 1
     = ([''DELEGATED''], 4)"
  by (simp add: scripted_lib_def VC_TYPES_def)

lemma delegated_generate:
  "generate scripted_lib 0 c 3 1 False = Inr [delegated_record (c 0 + 86400) (c 1)]"
  unfolding generate_def Let_def delegated_types prod.case generate_loop.simps
    delegated_generate_record bind_err_def sum.case
  by simp

lemma epoch_keys:
  "filter is_epoch_key (concat (map snd ATTR_KEY_MAP)) = [''expiry_epoch'']"
  by (simp add: ATTR_KEY_MAP_def is_epoch_key_def)

lemma erase_delegated:
  "erase_time (delegated_record e t) = delegated_record 0 0"
  by (simp add: erase_time_def delegated_record_def erase_attr_def is_epoch_key_def)

text \<open>
  Claim C2, as amended. For every agent id, credential count and attacker flag (and every
  behaviour of the library generator), two calls of \<open>generate\<close> on instances with the same
  seed offset return the same error or lists of records that are equal in every field
  except the issuance timestamp and the attributes stored by the clock-reading branch,
  whatever the clock shows during either call; among the attribute keys of the module
  that branch is taken for \<^verbatim>\<open>expiry_epoch\<close> only. The generator enters a call through the
  state seeded with \<open>agent_id + seed_offset * 100003\<close> alone: seeding every other value
  differently changes nothing, and \<open>generate\<close> takes no generator state and returns none.
\<close>

theorem generate_reproducible_up_to_clock:
  "map_sum id (map erase_time) (generate lib seed_offset c1 agent_id n is_att)
     = map_sum id (map erase_time) (generate lib seed_offset c2 agent_id n is_att)
   \<and> filter is_epoch_key (concat (map snd ATTR_KEY_MAP)) = [''expiry_epoch'']
   \<and> (f (agent_id + seed_offset * 100003) = lib_seed lib (agent_id + seed_offset * 100003) \<longrightarrow>
        generate (lib\<lparr>lib_seed := f\<rparr>) seed_offset c1 agent_id n is_att
          = generate lib seed_offset c1 agent_id n is_att)"
proof (intro conjI impI)
  show "map_sum id (map erase_time) (generate lib seed_offset c1 agent_id n is_att)
          = map_sum id (map erase_time) (generate lib seed_offset c2 agent_id n is_att)"
    unfolding generate_def Let_def case_prod_beta by (rule generate_loop_erased)
  show "filter is_epoch_key (concat (map snd ATTR_KEY_MAP)) = [''expiry_epoch'']"
    by (rule epoch_keys)
  assume "f (agent_id + seed_offset * 100003) = lib_seed lib (agent_id + seed_offset * 100003)"
  then show "generate (lib\<lparr>lib_seed := f\<rparr>) seed_offset c1 agent_id n is_att
               = generate lib seed_offset c1 agent_id n is_att"
    unfolding generate_def generate_loop_reseed reseed_fields by simp
qed

text \<open>
  Claim C2, as stated, fails. Agent 3 asks for one credential from an instance with seed
  offset 0, once while the clock shows 1700000000 and once, with the same generator, while
  it shows 1700000060: the two records differ in the issuance timestamp and in the
  \<^verbatim>\<open>expiry_epoch\<close> attribute.
\<close>

theorem generate_timestamps_differ:
  "generate scripted_lib 0 (\<lambda>k. 1700000000) 3 1 False
     = Inr [delegated_record 1700086400 1700000000]
   \<and> generate scripted_lib 0 (\<lambda>k. 1700000060) 3 1 False
     = Inr [delegated_record 1700086460 1700000060]
   \<and> generate scripted_lib 0 (\<lambda>k. 1700000000) 3 1 False
     \<noteq> generate scripted_lib 0 (\<lambda>k. 1700000060) 3 1 False"
  by (simp add: delegated_generate delegated_record_def)

text \<open>
  The amended claim on that run: with the clock values blanked the two calls agree, and a
  generator that seeds 3 as the scripted one does and every other value with 99 gives the
  same record.
\<close>

theorem generate_reproducible_up_to_clock_witness:
  "(if (3::int) + 0 * 100003 = 3 then 3 else 99) = lib_seed scripted_lib (3 + 0 * 100003)
   \<and> generate (scripted_lib\<lparr>lib_seed := (\<lambda>s. if s = 3 then 3 else 99)\<rparr>) 0 (\<lambda>k. 1700000000) 3 1 False
       = Inr [delegated_record 1700086400 1700000000]
   \<and> map_sum id (map erase_time) (generate scripted_lib 0 (\<lambda>k. 1700000000) 3 1 False)
       = Inr [delegated_record 0 0]
   \<and> map_sum id (map erase_time) (generate scripted_lib 0 (\<lambda>k. 1700000060) 3 1 False)
       = Inr [delegated_record 0 0]"
  using generate_reproducible_up_to_clock
    [where lib = scripted_lib and seed_offset = 0 and agent_id = 3 and n = 1 and is_att = False
       and ?c1.0 = "\<lambda>k. 1700000000" and ?c2.0 = "\<lambda>k. 1700000060"
       and f = "\<lambda>s. if s = 3 then 3 else 99"]
  by (simp add: delegated_generate erase_delegated scripted_fields)

end
